theory Spec2Isabelle
  imports Complex_Main
begin

section \<open>Storage module (the localStorage namespace \<open>RacingWinner\<close>)\<close>

text \<open>
  JavaScript numbers are modelled as exact reals (counters and lengths as naturals), so
  rounding of IEEE doubles is not part of the model. Strings are \<open>string\<close>. A key that is
  absent from an object (\<open>undefined\<close>) is \<open>None\<close>.
\<close>

record user =
  u_id :: string
  u_name :: string
  u_color :: string
  u_enabled :: "bool option"

text \<open>
  A history entry as built by \<open>addSpinEntry\<close>. \<open>Date.now()\<close> is an input of the model
  (milliseconds, a natural number); the ISO timestamp string is kept as that number.
\<close>

record entry =
  e_id :: string
  e_userId :: string
  e_userName :: string
  e_timestamp :: nat
  e_spinNumber :: nat

text \<open>Of the settings object only \<open>spinDuration\<close> is read by the modelled code.\<close>

record settings =
  spinDuration :: "real option"

record namespace =
  ns_users :: "user list option"
  ns_history :: "entry list option"
  ns_settings :: "settings option"
  ns_lastView :: "string option"
  ns_firstVisit :: "string option"
  ns_lastSelected :: "string option"

text \<open>
  \<open>localStorage\<close> holds the namespace object under one key. \<open>ls_full\<close> says that
  \<open>localStorage.setItem\<close> throws (quota exceeded); \<open>_setNamespaceData\<close> catches that and
  only logs, so the write is lost.
\<close>

record localStorage =
  ls_item :: "namespace option"
  ls_full :: bool

definition emptyNamespace :: namespace where
  "emptyNamespace = \<lparr>ns_users = None, ns_history = None, ns_settings = None,
     ns_lastView = None, ns_firstVisit = None, ns_lastSelected = None\<rparr>"

definition getNamespaceData :: "localStorage \<Rightarrow> namespace" where
  "getNamespaceData ls = (case ls_item ls of None \<Rightarrow> emptyNamespace | Some d \<Rightarrow> d)"

definition setNamespaceData :: "namespace \<Rightarrow> localStorage \<Rightarrow> localStorage" where
  "setNamespaceData d ls = (if ls_full ls then ls else ls\<lparr>ls_item := Some d\<rparr>)"

text \<open>Decimal digits of a natural number (\<open>Number.prototype.toString\<close> on an integer).\<close>

fun digits :: "nat \<Rightarrow> string" where
  "digits n = (if n < 10 then [''0123456789'' ! n] else digits (n div 10) @ [''0123456789'' ! (n mod 10)])"

declare digits.simps [simp del]

subsection \<open>Users\<close>

definition getUsers :: "localStorage \<Rightarrow> user list" where
  "getUsers ls =
     map (\<lambda>u. u\<lparr>u_enabled := Some (case u_enabled u of None \<Rightarrow> True | Some b \<Rightarrow> b)\<rparr>)
       (case ns_users (getNamespaceData ls) of None \<Rightarrow> [] | Some us \<Rightarrow> us)"

definition getEnabledUsers :: "localStorage \<Rightarrow> user list" where
  "getEnabledUsers ls = filter (\<lambda>u. u_enabled u \<noteq> Some False) (getUsers ls)"

text \<open>\<open>Array.prototype.findIndex\<close>; \<open>-1\<close> is \<open>None\<close>.\<close>

fun findIndex :: "('a \<Rightarrow> bool) \<Rightarrow> 'a list \<Rightarrow> nat option" where
  "findIndex P [] = None"
| "findIndex P (x # xs) = (if P x then Some 0 else map_option Suc (findIndex P xs))"

text \<open>\<open>toggleUserEnabled(id)\<close>: flips the flag of the first user with that id and saves.\<close>

definition toggleUserEnabled :: "string \<Rightarrow> localStorage \<Rightarrow> localStorage" where
  "toggleUserEnabled i ls =
     (let us = getUsers ls in
      case findIndex (\<lambda>u. u_id u = i) us of
        None \<Rightarrow> ls
      | Some k \<Rightarrow>
          setNamespaceData ((getNamespaceData ls)\<lparr>ns_users := Some
            (us[k := (us ! k)\<lparr>u_enabled := Some (u_enabled (us ! k) = Some False)\<rparr>])\<rparr>) ls)"

subsection \<open>History\<close>

definition getHistory :: "localStorage \<Rightarrow> entry list" where
  "getHistory ls = (case ns_history (getNamespaceData ls) of None \<Rightarrow> [] | Some h \<Rightarrow> h)"

definition getLastSelected :: "localStorage \<Rightarrow> string option" where
  "getLastSelected ls = ns_lastSelected (getNamespaceData ls)"

definition setLastSelected :: "string \<Rightarrow> localStorage \<Rightarrow> localStorage" where
  "setLastSelected userId ls =
     setNamespaceData ((getNamespaceData ls)\<lparr>ns_lastSelected := Some userId\<rparr>) ls"

definition setHistory :: "entry list \<Rightarrow> localStorage \<Rightarrow> localStorage" where
  "setHistory h ls = setNamespaceData ((getNamespaceData ls)\<lparr>ns_history := Some h\<rparr>) ls"

text \<open>
  \<open>addSpinEntry(userId, userName)\<close>: the entry is numbered \<open>history.length + 1\<close>, pushed,
  and the oldest entry is shifted out once the length exceeds 500; then the history key
  and the lastSelected key are written, one after the other.
\<close>

definition newEntry :: "string \<Rightarrow> string \<Rightarrow> nat \<Rightarrow> entry list \<Rightarrow> entry" where
  "newEntry userId userName now history =
     \<lparr>e_id = digits now, e_userId = userId, e_userName = userName,
      e_timestamp = now, e_spinNumber = length history + 1\<rparr>"

definition pushEntry :: "string \<Rightarrow> string \<Rightarrow> nat \<Rightarrow> entry list \<Rightarrow> entry list" where
  "pushEntry userId userName now history =
     (let pushed = history @ [newEntry userId userName now history]
      in if length pushed > 500 then tl pushed else pushed)"

definition addSpinEntry :: "string \<Rightarrow> string \<Rightarrow> nat \<Rightarrow> localStorage \<Rightarrow> localStorage" where
  "addSpinEntry userId userName now ls =
     setLastSelected userId
       (setHistory (pushEntry userId userName now (getHistory ls)) ls)"

definition clearHistory :: "localStorage \<Rightarrow> localStorage" where
  "clearHistory ls = setHistory [] ls"

text \<open>A run of appends: each input is (userId, userName, Date.now()).\<close>

abbreviation pushAll :: "entry list \<Rightarrow> (string \<times> string \<times> nat) list \<Rightarrow> entry list" where
  "pushAll h ins \<equiv> foldl (\<lambda>h (userId, userName, now). pushEntry userId userName now h) h ins"

fun addSpinEntries :: "(string \<times> string \<times> nat) list \<Rightarrow> localStorage \<Rightarrow> localStorage" where
  "addSpinEntries [] ls = ls"
| "addSpinEntries ((userId, userName, now) # rest) ls =
     addSpinEntries rest (addSpinEntry userId userName now ls)"

subsection \<open>Statistics\<close>

text \<open>
  \<open>percentage\<close> is the number \<open>0\<close> for an empty history and otherwise the string that
  \<open>toFixed(1)\<close> returns.
\<close>

datatype percentage = PctNumber nat | PctString string

record stat =
  st_user :: user
  st_winCount :: nat
  st_selections :: nat
  st_currentStreak :: nat
  st_longestStreak :: nat
  st_percentage :: "percentage option"

text \<open>
  \<open>x.toFixed(1)\<close> for \<open>x \<ge> 0\<close>: the nearest multiple of one tenth, the larger one on a
  tie, printed with one decimal.
\<close>

definition tenths :: "real \<Rightarrow> nat" where
  "tenths x = nat \<lfloor>x * 10 + 1 / 2\<rfloor>"

definition toFixed1 :: "real \<Rightarrow> string" where
  "toFixed1 x = digits (tenths x div 10) @ ''.'' @ digits (tenths x mod 10)"

text \<open>
  \<open>stats\<close> is a plain object literal, so \<open>stats[key]\<close> also finds what the object
  inherits. Its prototype is \<open>Object.prototype\<close>, whose members (all truthy) are listed
  here, unless a participant has the id \<open>__proto__\<close>: the assignment
  \<open>stats['__proto__'] = {...}\<close> creates no property of its own and makes that stat object
  the prototype of \<open>stats\<close>.
\<close>

definition objectPrototypeKeys :: "string list" where
  "objectPrototypeKeys =
     [''constructor'', ''__defineGetter__'', ''__defineSetter__'', ''hasOwnProperty'',
      ''__lookupGetter__'', ''__lookupSetter__'', ''isPrototypeOf'', ''propertyIsEnumerable'',
      ''toString'', ''valueOf'', ''__proto__'', ''toLocaleString'']"

record stats =
  so_own :: "string \<rightharpoonup> stat"
  so_proto :: "stat option"

text \<open>
  What \<open>stats[key]\<close> evaluates to: a stat object that is a property of \<open>stats\<close> itself,
  the stat object that is its prototype, some other truthy value (an inherited function or
  object, a non-zero number), or a falsy one (\<open>undefined\<close>, the number 0).
\<close>

datatype property = OwnStat stat | ProtoStat stat | Truthy | Falsy

definition getStat :: "stats \<Rightarrow> string \<Rightarrow> property" where
  "getStat stats key =
     (case so_own stats key of
        Some s \<Rightarrow> OwnStat s
      | None \<Rightarrow>
          (case so_proto stats of
             Some p \<Rightarrow>
               if key = ''__proto__'' then ProtoStat p
               else if key = ''user'' then Truthy
               else if key = ''winCount'' then (if st_winCount p = 0 then Falsy else Truthy)
               else if key = ''selections'' then (if st_selections p = 0 then Falsy else Truthy)
               else if key = ''currentStreak'' then
                 (if st_currentStreak p = 0 then Falsy else Truthy)
               else if key = ''longestStreak'' then
                 (if st_longestStreak p = 0 then Falsy else Truthy)
               else if key \<in> set objectPrototypeKeys then Truthy else Falsy
           | None \<Rightarrow> if key \<in> set objectPrototypeKeys then Truthy else Falsy))"

text \<open>
  An assignment to fields of \<open>stats[key]\<close>. Only the stat objects are tracked: a write to
  an inherited function, to \<open>Object.prototype\<close>, to a user object or to a number leaves
  \<open>stats\<close> as it is (the scan is modelled from a freshly loaded page).
\<close>

definition updStat :: "(stat \<Rightarrow> stat) \<Rightarrow> string \<Rightarrow> stats \<Rightarrow> stats" where
  "updStat f key stats =
     (case getStat stats key of
        OwnStat s \<Rightarrow> stats\<lparr>so_own := (so_own stats)(key \<mapsto> f s)\<rparr>
      | ProtoStat p \<Rightarrow> stats\<lparr>so_proto := Some (f p)\<rparr>
      | Truthy \<Rightarrow> stats
      | Falsy \<Rightarrow> stats)"

definition newStat :: "user \<Rightarrow> stat" where
  "newStat u = \<lparr>st_user = u, st_winCount = 0, st_selections = 0, st_currentStreak = 0,
                st_longestStreak = 0, st_percentage = None\<rparr>"

definition initStats :: "user list \<Rightarrow> stats" where
  "initStats users =
     foldl (\<lambda>stats u.
              if u_id u = ''__proto__'' then stats\<lparr>so_proto := Some (newStat u)\<rparr>
              else stats\<lparr>so_own := (so_own stats)(u_id u \<mapsto> newStat u)\<rparr>)
       \<lparr>so_own = Map.empty, so_proto = None\<rparr> users"

text \<open>
  The state of the scan over the history: the stats object, \<open>lastUserId\<close> and the running
  \<open>currentStreak\<close> (\<open>null\<close> is \<open>None\<close>).
\<close>

type_synonym scan = "stats \<times> string option \<times> (string \<times> nat) option"

text \<open>\<open>if (currentStreak && stats[currentStreak.userId]) { ...longestStreak = Math.max(...) }\<close>\<close>

definition flushLongest :: "(string \<times> nat) option \<Rightarrow> stats \<Rightarrow> stats" where
  "flushLongest cs stats =
     (case cs of None \<Rightarrow> stats
      | Some (i, c) \<Rightarrow> updStat (\<lambda>s. s\<lparr>st_longestStreak := max (st_longestStreak s) c\<rparr>) i stats)"

definition countEntry :: "scan \<Rightarrow> entry \<Rightarrow> scan" where
  "countEntry sc e =
     (case sc of (stats, lastUserId, currentStreak) \<Rightarrow>
        (case getStat stats (e_userId e) of
           Falsy \<Rightarrow> sc
         | _ \<Rightarrow>
             (let stats1 = updStat (\<lambda>s. s\<lparr>st_winCount := st_winCount s + 1,
                                           st_selections := st_selections s + 1\<rparr>)
                             (e_userId e) stats
              in if Some (e_userId e) = lastUserId
                 then (case currentStreak of
                         None \<Rightarrow> (stats1, Some (e_userId e), Some (e_userId e, 1))
                       | Some (i, c) \<Rightarrow> (stats1, Some (e_userId e), Some (i, c + 1)))
                 else (flushLongest currentStreak stats1, Some (e_userId e),
                       Some (e_userId e, 1)))))"

definition finalizeStreak :: "scan \<Rightarrow> stats" where
  "finalizeStreak sc =
     (case sc of (stats, lastUserId, currentStreak) \<Rightarrow>
        (case currentStreak of None \<Rightarrow> stats
         | Some (i, c) \<Rightarrow>
             updStat (\<lambda>s. s\<lparr>st_currentStreak := c,
                             st_longestStreak := max (st_longestStreak s) c\<rparr>) i stats))"

definition setPercentage :: "nat \<Rightarrow> stat \<Rightarrow> stat" where
  "setPercentage totalSpins s =
     s\<lparr>st_percentage := Some (if totalSpins > 0
        then PctString (toFixed1 ((real (st_winCount s) / real totalSpins) * 100))
        else PctNumber 0)\<rparr>"

text \<open>The stats object after the scan and the final flush, before the percentages.\<close>

definition scanHistory :: "user list \<Rightarrow> entry list \<Rightarrow> stats" where
  "scanHistory users history =
     finalizeStreak (foldl countEntry (initStats users, None, None) history)"

text \<open>\<open>Object.values(stats)\<close> are the properties of \<open>stats\<close> itself.\<close>

definition statistics :: "user list \<Rightarrow> entry list \<Rightarrow> stats" where
  "statistics users history =
     (let stats = scanHistory users history
      in stats\<lparr>so_own := map_option (setPercentage (length history)) \<circ> so_own stats\<rparr>)"

definition calculateStatistics :: "localStorage \<Rightarrow> stats" where
  "calculateStatistics ls = statistics (getUsers ls) (getHistory ls)"

definition getSettings :: "localStorage \<Rightarrow> settings" where
  "getSettings ls =
     (case ns_settings (getNamespaceData ls) of
        None \<Rightarrow> \<lparr>spinDuration = Some 7\<rparr>
      | Some st \<Rightarrow> \<lparr>spinDuration = (case spinDuration st of None \<Rightarrow> Some 7 | Some d \<Rightarrow> Some d)\<rparr>)"

section \<open>The entropy source\<close>

text \<open>
  \<open>Math.random()\<close> reads the next value of a sequence of reals; \<open>rng_pos\<close> counts the
  calls made so far. The values are meant to lie in \<open>[0, 1)\<close>.
\<close>

record rng =
  rng_seq :: "nat \<Rightarrow> real"
  rng_pos :: nat

definition Math_random :: "rng \<Rightarrow> real \<times> rng" where
  "Math_random g = (rng_seq g (rng_pos g), g\<lparr>rng_pos := rng_pos g + 1\<rparr>)"

definition unitInterval :: "rng \<Rightarrow> bool" where
  "unitInterval g = (\<forall>k. 0 \<le> rng_seq g k \<and> rng_seq g k < 1)"

section \<open>HorseState (src/js/race.js)\<close>

record speedChange =
  sc_time :: real
  sc_multiplier :: real

record horse =
  h_index :: nat
  h_userId :: string
  h_userName :: string
  h_color :: string
  isWinner :: bool
  position :: real
  raceDistance :: real
  totalDuration :: real
  baseSpeed :: real
  velocity :: real
  speedChanges :: "speedChange list"
  currentSpeedIndex :: nat
  finalStretchStart :: real

text \<open>The \<open>for\<close> loop of \<open>generateSpeedChanges\<close>: one \<open>Math.random()\<close> per change.\<close>

function speedChangeLoop ::
  "real \<Rightarrow> nat \<Rightarrow> nat \<Rightarrow> speedChange list \<Rightarrow> rng \<Rightarrow> speedChange list \<times> rng" where
  "speedChangeLoop T numChanges i changes g =
     (if i < numChanges
      then speedChangeLoop T numChanges (i + 1)
             (changes @ [\<lparr>sc_time = (T / (real numChanges + 1)) * (real i + 1),
                          sc_multiplier = 0.6 + fst (Math_random g) * 1.2\<rparr>])
             (snd (Math_random g))
      else (changes, g))"
  by pat_completeness auto
termination
  by (relation "measure (\<lambda>(T, numChanges, i, changes, g). numChanges - i)") auto

declare speedChangeLoop.simps [simp del]

definition generateSpeedChanges :: "real \<Rightarrow> rng \<Rightarrow> speedChange list \<times> rng" where
  "generateSpeedChanges T g =
     (let numChanges = 6 + nat \<lfloor>fst (Math_random g) * 5\<rfloor>;
          looped = speedChangeLoop T numChanges 0 [] (snd (Math_random g))
      in (sort_key sc_time (fst looped), snd looped))"

definition HorseState ::
  "nat \<Rightarrow> string \<Rightarrow> string \<Rightarrow> string \<Rightarrow> bool \<Rightarrow> real \<Rightarrow> real \<Rightarrow> rng \<Rightarrow> horse \<times> rng" where
  "HorseState index userId userName color winner T L g =
     (\<lparr>h_index = index, h_userId = userId, h_userName = userName, h_color = color,
       isWinner = winner, position = 50, raceDistance = L, totalDuration = T,
       baseSpeed = L / T, velocity = L / T,
       speedChanges = fst (generateSpeedChanges T g), currentSpeedIndex = 0,
       finalStretchStart = T * 0.7\<rparr>,
      snd (generateSpeedChanges T g))"

text \<open>The \<open>while\<close> loop of \<open>update\<close> that applies the speed changes that are due.\<close>

function applySpeedChanges :: "real \<Rightarrow> horse \<Rightarrow> horse" where
  "applySpeedChanges elapsedTime h =
     (if currentSpeedIndex h < length (speedChanges h) \<and>
         elapsedTime \<ge> sc_time (speedChanges h ! currentSpeedIndex h)
      then applySpeedChanges elapsedTime
             (h\<lparr>velocity := baseSpeed h * sc_multiplier (speedChanges h ! currentSpeedIndex h),
                currentSpeedIndex := currentSpeedIndex h + 1\<rparr>)
      else h)"
  by pat_completeness auto
termination
  by (relation "measure (\<lambda>(elapsedTime, h). length (speedChanges h) - currentSpeedIndex h)") auto

declare applySpeedChanges.simps [simp del]

text \<open>
  \<open>update(elapsedTime, deltaTime)\<close> in three steps, in the order of the source: the
  scheduled speed changes and the move at the current velocity; the final stretch logic
  (boost and floor for the winner, slowdown and cap for the others); the last clamp of the
  winner from 95 percent of the duration on.
\<close>

definition moveHorse :: "real \<Rightarrow> real \<Rightarrow> horse \<Rightarrow> horse" where
  "moveHorse elapsedTime deltaTime h =
     (let cappedDeltaTime = min deltaTime 50;
          h1 = applySpeedChanges elapsedTime h
      in h1\<lparr>position := position h1 + velocity h1 * cappedDeltaTime\<rparr>)"

definition finalStretch :: "real \<Rightarrow> real \<Rightarrow> horse \<Rightarrow> horse" where
  "finalStretch elapsedTime deltaTime h =
     (let cappedDeltaTime = min deltaTime 50 in
      if isWinner h \<and> elapsedTime \<ge> finalStretchStart h then
        (let finalProgress =
               (elapsedTime - finalStretchStart h) / (totalDuration h - finalStretchStart h);
             boost = 1 + finalProgress * 0.8;
             h1 = h\<lparr>position := position h + baseSpeed h * cappedDeltaTime * boost\<rparr>;
             minPosition = 50 + raceDistance h1 * (0.7 + finalProgress * 0.3)
         in if position h1 < minPosition then h1\<lparr>position := minPosition\<rparr> else h1)
      else if \<not> isWinner h then
        (let h1 = (if elapsedTime \<ge> finalStretchStart h
                   then (let finalProgress =
                               (elapsedTime - finalStretchStart h) /
                               (totalDuration h - finalStretchStart h);
                             slowdown = 1 - finalProgress * 0.25
                         in h\<lparr>velocity := velocity h * slowdown\<rparr>)
                   else h);
             maxPosition = 50 + raceDistance h1 * 0.92
         in if position h1 \<ge> maxPosition
            then h1\<lparr>position := maxPosition, velocity := baseSpeed h1 * 0.15\<rparr>
            else h1)
      else h)"

definition ensureWinnerFinishes :: "real \<Rightarrow> horse \<Rightarrow> horse" where
  "ensureWinnerFinishes elapsedTime h =
     (if isWinner h \<and> elapsedTime \<ge> totalDuration h * 0.95
      then (let targetPosition = 50 + raceDistance h
            in if position h < targetPosition then h\<lparr>position := targetPosition\<rparr> else h)
      else h)"

definition update :: "real \<Rightarrow> real \<Rightarrow> horse \<Rightarrow> horse" where
  "update elapsedTime deltaTime h =
     ensureWinnerFinishes elapsedTime
       (finalStretch elapsedTime deltaTime (moveHorse elapsedTime deltaTime h))"

text \<open>A run of \<open>update\<close> calls, one per frame: (elapsedTime, deltaTime).\<close>

fun updates :: "(real \<times> real) list \<Rightarrow> horse \<Rightarrow> horse" where
  "updates [] h = h"
| "updates ((elapsedTime, deltaTime) # frames) h = updates frames (update elapsedTime deltaTime h)"

section \<open>HorseState, second copy (the race module appended to src/js/effects.js)\<close>

text \<open>
  The repository holds a second version of the race module, in the same file as the
  effects. Its constructor draws three more random values (a finish fraction in
  \<open>[0.85, 0.96)\<close>, a slowdown rate and a slowdown start), and its \<open>update\<close> slows a
  non-winner down towards that finish fraction instead of capping it. \<open>Math.pow(x, 1.5)\<close>
  is \<open>x powr 1.5\<close> (its argument is not negative where it is used).
\<close>

record horse2 = horse +
  maxFinishPercent :: real
  slowdownRate :: real
  slowdownStart :: real

definition HorseState2 ::
  "nat \<Rightarrow> string \<Rightarrow> string \<Rightarrow> string \<Rightarrow> bool \<Rightarrow> real \<Rightarrow> real \<Rightarrow> rng \<Rightarrow> horse2 \<times> rng" where
  "HorseState2 index userId userName color winner T L g =
     (let g1 = snd (generateSpeedChanges T g);
          g2 = snd (Math_random g1);
          g3 = snd (Math_random g2)
      in (\<lparr>h_index = index, h_userId = userId, h_userName = userName, h_color = color,
           isWinner = winner, position = 50, raceDistance = L, totalDuration = T,
           baseSpeed = L / T, velocity = L / T,
           speedChanges = fst (generateSpeedChanges T g), currentSpeedIndex = 0,
           finalStretchStart = T * 0.7,
           maxFinishPercent = 0.85 + fst (Math_random g1) * 0.11,
           slowdownRate = 0.5 + fst (Math_random g2) * 0.3,
           slowdownStart = T * (0.3 + fst (Math_random g3) * 0.2)\<rparr>,
          snd (Math_random g3)))"

function applySpeedChanges2 :: "real \<Rightarrow> horse2 \<Rightarrow> horse2" where
  "applySpeedChanges2 elapsedTime h =
     (if currentSpeedIndex h < length (speedChanges h) \<and>
         elapsedTime \<ge> sc_time (speedChanges h ! currentSpeedIndex h)
      then applySpeedChanges2 elapsedTime
             (h\<lparr>velocity := baseSpeed h * sc_multiplier (speedChanges h ! currentSpeedIndex h),
                currentSpeedIndex := currentSpeedIndex h + 1\<rparr>)
      else h)"
  by pat_completeness auto
termination
  by (relation "measure (\<lambda>(elapsedTime, h). length (speedChanges h) - currentSpeedIndex h)") auto

declare applySpeedChanges2.simps [simp del]

text \<open>
  \<open>update(elapsedTime, deltaTime)\<close> of the second copy, in the order of the source: the
  speed changes (for a non-winner only before the final stretch); the movement of the
  winner or of the non-winner, added to the position; the last clamp of the winner.
\<close>

definition scheduledSpeed2 :: "real \<Rightarrow> horse2 \<Rightarrow> horse2" where
  "scheduledSpeed2 elapsedTime h =
     (if isWinner h \<or> elapsedTime < finalStretchStart h
      then applySpeedChanges2 elapsedTime h else h)"

definition winnerMove2 :: "real \<Rightarrow> real \<Rightarrow> horse2 \<Rightarrow> horse2" where
  "winnerMove2 elapsedTime cappedDeltaTime h =
     (if elapsedTime \<ge> finalStretchStart h then
        (let finalProgress =
               (elapsedTime - finalStretchStart h) / (totalDuration h - finalStretchStart h);
             boost = 1 + finalProgress * 0.8;
             movement = baseSpeed h * cappedDeltaTime * boost;
             minPosition = 50 + raceDistance h * (0.7 + finalProgress * 0.3);
             h1 = (if position h < minPosition then h\<lparr>position := minPosition\<rparr> else h)
         in h1\<lparr>position := position h1 + movement\<rparr>)
      else h\<lparr>position := position h + velocity h * cappedDeltaTime\<rparr>)"

definition distanceFactor2 :: "real \<Rightarrow> real" where
  "distanceFactor2 distanceRemaining =
     (if 0 < distanceRemaining \<and> distanceRemaining < 200
      then max 0.4 (distanceRemaining / 200)
      else if distanceRemaining \<le> 0 then 0.3 else 1)"

definition nonWinnerMove2 :: "real \<Rightarrow> real \<Rightarrow> horse2 \<Rightarrow> horse2" where
  "nonWinnerMove2 elapsedTime cappedDeltaTime h =
     (let targetPosition = 50 + raceDistance h * maxFinishPercent h;
          distanceRemaining = targetPosition - position h
      in if elapsedTime < slowdownStart h
         then h\<lparr>position := position h + velocity h * cappedDeltaTime\<rparr>
         else
           (let slowdownDuration = totalDuration h - slowdownStart h;
                slowdownProgress = (elapsedTime - slowdownStart h) / slowdownDuration;
                slowdownCurve = slowdownProgress powr 1.5;
                speedMultiplier = 1 - slowdownCurve * slowdownRate h;
                finalSpeedMultiplier =
                  max 0.3 (speedMultiplier * distanceFactor2 distanceRemaining);
                h1 = h\<lparr>velocity := baseSpeed h * finalSpeedMultiplier\<rparr>
            in h1\<lparr>position := position h1 + velocity h1 * cappedDeltaTime\<rparr>))"

definition ensureWinnerFinishes2 :: "real \<Rightarrow> horse2 \<Rightarrow> horse2" where
  "ensureWinnerFinishes2 elapsedTime h =
     (if isWinner h \<and> elapsedTime \<ge> totalDuration h * 0.95
      then (let targetPosition = 50 + raceDistance h
            in if position h < targetPosition then h\<lparr>position := targetPosition\<rparr> else h)
      else h)"

definition update2 :: "real \<Rightarrow> real \<Rightarrow> horse2 \<Rightarrow> horse2" where
  "update2 elapsedTime deltaTime h0 =
     (let cappedDeltaTime = min deltaTime 50;
          h = scheduledSpeed2 elapsedTime h0
      in ensureWinnerFinishes2 elapsedTime
           (if isWinner h then winnerMove2 elapsedTime cappedDeltaTime h
            else nonWinnerMove2 elapsedTime cappedDeltaTime h))"

fun updates2 :: "(real \<times> real) list \<Rightarrow> horse2 \<Rightarrow> horse2" where
  "updates2 [] h = h"
| "updates2 ((elapsedTime, deltaTime) # frames) h =
     updates2 frames (update2 elapsedTime deltaTime h)"

section \<open>Selection (\<open>getRandomUserIndex\<close>, the same code in race.js and wheel.js)\<close>

text \<open>\<open>Math.floor(Math.random() * n)\<close>, as a function of the random value and as a draw.\<close>

definition drawIndex :: "nat \<Rightarrow> real \<Rightarrow> nat" where
  "drawIndex n r = nat \<lfloor>r * real n\<rfloor>"

definition randomIndex :: "nat \<Rightarrow> rng \<Rightarrow> nat \<times> rng" where
  "randomIndex n g = (drawIndex n (fst (Math_random g)), snd (Math_random g))"

text \<open>The index that the \<open>k\<close>-th next draw from \<open>g\<close> yields.\<close>

definition draws :: "nat \<Rightarrow> rng \<Rightarrow> nat \<Rightarrow> nat" where
  "draws n g k = drawIndex n (rng_seq g (rng_pos g + k))"

function reroll :: "nat \<Rightarrow> nat \<Rightarrow> nat \<Rightarrow> nat \<Rightarrow> rng \<Rightarrow> nat \<times> rng" where
  "reroll n lastIndex index attempts g =
     (if index = lastIndex \<and> attempts < 10
      then reroll n lastIndex (fst (randomIndex n g)) (attempts + 1) (snd (randomIndex n g))
      else (index, g))"
  by pat_completeness auto
termination
  by (relation "measure (\<lambda>(n, lastIndex, index, attempts, g). 10 - attempts)") auto

declare reroll.simps [simp del]

definition getRandomUserIndex :: "user list \<Rightarrow> string option \<Rightarrow> rng \<Rightarrow> nat \<times> rng" where
  "getRandomUserIndex us lastSelectedId g =
     (let drawn = randomIndex (length us) g in
      case lastSelectedId of
        None \<Rightarrow> drawn
      | Some l \<Rightarrow>
          if l = [] then drawn
          else (case findIndex (\<lambda>u. u_id u = l) us of
                  None \<Rightarrow> drawn
                | Some lastIndex \<Rightarrow> reroll (length us) lastIndex (fst drawn) 0 (snd drawn)))"

text \<open>
  The selection as the specification words it, over the sequence \<open>d\<close> of uniformly drawn
  indices (\<open>d 0\<close> the first draw, \<open>d 1\<close> to \<open>d 10\<close> the redraws): redraw while the
  participant drawn has the id of the last winner, at most 10 times, then accept.
\<close>

definition selectWinner_spec :: "user list \<Rightarrow> string option \<Rightarrow> (nat \<Rightarrow> nat) \<Rightarrow> nat" where
  "selectWinner_spec us lastWinnerId d =
     (case lastWinnerId of
        None \<Rightarrow> d 0
      | Some l \<Rightarrow>
          if l \<in> set (map u_id us)
          then (case find (\<lambda>k. u_id (us ! d k) \<noteq> l) [0..<10] of Some k \<Rightarrow> d k | None \<Rightarrow> d 10)
          else d 0)"

section \<open>Race (src/js/race.js) and its caller App.race\<close>

datatype jsError = TypeError

text \<open>
  The fields of the \<open>Race\<close> object, followed by the environment it acts on: the storage,
  the entropy source, the next handle that \<open>requestAnimationFrame\<close> or \<open>setTimeout\<close>
  returns (handles are positive), the disabled flag of the race button, the log of
  \<open>onComplete\<close> calls, the alerts shown and the exceptions that escaped.
\<close>

record race =
  isRacing :: bool
  users :: "user list"
  horses :: "horse list"
  r_raceDistance :: real
  animationFrameId :: "nat option"
  startTime :: "real option"
  lastFrameTime :: "real option"
  duration :: real
  selectedUser :: "user option"
  selectedIndex :: int
  raceTimeoutId :: "nat option"
  storage :: localStorage
  random :: rng
  nextHandle :: nat
  raceButtonDisabled :: bool
  completions :: "user list"
  alerts :: "string list"
  uncaught :: "jsError list"

text \<open>\<open>if (id) { cancel(id); id = null; }\<close>: a handle is truthy unless it is 0.\<close>

definition clearHandle :: "nat option \<Rightarrow> nat option" where
  "clearHandle x = (case x of None \<Rightarrow> None | Some i \<Rightarrow> if i = 0 then Some 0 else None)"

definition cleanup :: "race \<Rightarrow> race" where
  "cleanup w =
     w\<lparr>animationFrameId := clearHandle (animationFrameId w),
       raceTimeoutId := clearHandle (raceTimeoutId w),
       isRacing := False, horses := [], raceButtonDisabled := False\<rparr>"

text \<open>
  \<open>completeRace(onComplete)\<close>; \<open>onComplete\<close> says whether a callback was passed and
  \<open>now\<close> is \<open>Date.now()\<close>. Reading \<open>this.selectedUser.id\<close> of \<open>null\<close> throws.
\<close>

definition completeRace :: "bool \<Rightarrow> nat \<Rightarrow> race \<Rightarrow> race" where
  "completeRace onComplete now w =
     (if \<not> isRacing w then w
      else
        (let w1 = w\<lparr>isRacing := False,
                    animationFrameId := clearHandle (animationFrameId w),
                    raceTimeoutId := clearHandle (raceTimeoutId w),
                    raceButtonDisabled := False\<rparr>
         in case selectedUser w1 of
              None \<Rightarrow> w1\<lparr>uncaught := uncaught w1 @ [TypeError]\<rparr>
            | Some u \<Rightarrow>
                (let w2 = w1\<lparr>storage := addSpinEntry (u_id u) (u_name u) now (storage w1)\<rparr>
                 in if onComplete then w2\<lparr>completions := completions w2 @ [u]\<rparr> else w2)))"

text \<open>One frame: \<open>animate(currentTime, onComplete)\<close>.\<close>

definition animate :: "real \<Rightarrow> bool \<Rightarrow> nat \<Rightarrow> race \<Rightarrow> race" where
  "animate currentTime onComplete now w =
     (if \<not> isRacing w then w
      else
        (let elapsedTime = currentTime - (case startTime w of None \<Rightarrow> 0 | Some s \<Rightarrow> s);
             deltaTime = (case lastFrameTime w of
                            None \<Rightarrow> 16
                          | Some l \<Rightarrow> if l = 0 then 16 else currentTime - l);
             w1 = w\<lparr>lastFrameTime := Some currentTime\<rparr>
         in if elapsedTime \<ge> duration w1 then completeRace onComplete now w1
            else
              (let w2 = w1\<lparr>horses := map (update elapsedTime deltaTime) (horses w1)\<rparr>
               in w2\<lparr>animationFrameId := Some (nextHandle w2),
                     nextHandle := nextHandle w2 + 1\<rparr>)))"

text \<open>The callback of the safety timeout set by \<open>race\<close>.\<close>

definition raceTimeout :: "bool \<Rightarrow> nat \<Rightarrow> race \<Rightarrow> race" where
  "raceTimeout onComplete now w = (if isRacing w then completeRace onComplete now w else w)"

text \<open>\<open>users.map((user, index) => new HorseState(...))\<close>, the entropy threaded in order.\<close>

fun makeHorses ::
  "nat \<Rightarrow> nat \<Rightarrow> real \<Rightarrow> real \<Rightarrow> user list \<Rightarrow> rng \<Rightarrow> horse list \<times> rng" where
  "makeHorses index sel T L [] g = ([], g)"
| "makeHorses index sel T L (u # us) g =
     (let made = HorseState index (u_id u) (u_name u) (u_color u) (index = sel) T L g;
          rest = makeHorses (index + 1) sel T L us (snd made)
      in (fst made # fst rest, snd rest))"

text \<open>
  \<open>race(onComplete)\<close>; \<open>perfNow\<close> is \<open>performance.now()\<close>. Every exit is a plain
  \<open>return\<close>: the function has no result and throws nothing on its guards.
\<close>

definition race :: "bool \<Rightarrow> real \<Rightarrow> nat \<Rightarrow> race \<Rightarrow> race" where
  "race onComplete perfNow now w =
     (if isRacing w \<or> length (users w) < 2 then w
      else
        (let w1 = cleanup w;
             w2 = w1\<lparr>users := getEnabledUsers (storage w1)\<rparr>
         in if length (users w2) < 2 then w2
            else
              (let w3 = w2\<lparr>isRacing := True, raceButtonDisabled := True,
                          duration := (case spinDuration (getSettings (storage w2)) of
                                         None \<Rightarrow> 0 | Some d \<Rightarrow> d) * 1000\<rparr>;
                   picked = getRandomUserIndex (users w3) (getLastSelected (storage w3)) (random w3);
                   w4 = w3\<lparr>selectedIndex := int (fst picked),
                          selectedUser := (if fst picked < length (users w3)
                                           then Some (users w3 ! fst picked) else None),
                          random := snd picked\<rparr>;
                   made = makeHorses 0 (fst picked) (duration w4) (r_raceDistance w4)
                            (users w4) (random w4);
                   w5 = w4\<lparr>horses := fst made, random := snd made,
                          startTime := Some perfNow, lastFrameTime := None\<rparr>;
                   w6 = animate perfNow onComplete now w5
               in w6\<lparr>raceTimeoutId := Some (nextHandle w6), nextHandle := nextHandle w6 + 1\<rparr>)))"

definition canRace :: "race \<Rightarrow> bool" where
  "canRace w = (length (getEnabledUsers (storage w)) \<ge> 2 \<and> \<not> isRacing w)"

text \<open>\<open>App.race()\<close>, the handler of the race button.\<close>

definition App_race :: "real \<Rightarrow> nat \<Rightarrow> race \<Rightarrow> race" where
  "App_race perfNow now w =
     (if \<not> canRace w then w\<lparr>alerts := alerts w @ [''Add at least 2 users before racing!'']\<rparr>
      else race True perfNow now w)"

text \<open>The \<open>Race\<close> object as the script creates it, after \<open>Race.init()\<close> has run \<open>render\<close>.\<close>

definition initialRace :: "localStorage \<Rightarrow> rng \<Rightarrow> race" where
  "initialRace ls g =
     \<lparr>isRacing = False, users = getEnabledUsers ls, horses = [], r_raceDistance = 900,
      animationFrameId = None, startTime = None, lastFrameTime = None, duration = 7000,
      selectedUser = None, selectedIndex = - 1, raceTimeoutId = None,
      storage = ls, random = g, nextHandle = 1, raceButtonDisabled = False,
      completions = [], alerts = [], uncaught = []\<rparr>"

section \<open>Example data\<close>

definition emptyStorage :: localStorage where
  "emptyStorage = \<lparr>ls_item = None, ls_full = False\<rparr>"

definition aliceWins :: "nat \<Rightarrow> (string \<times> string \<times> nat) list" where
  "aliceWins n = replicate n (''A'', ''Alice'', 0)"

definition userA :: user where
  "userA = \<lparr>u_id = ''A'', u_name = ''Alice'', u_color = ''#FF6B6B'', u_enabled = Some True\<rparr>"

definition userB :: user where
  "userB = \<lparr>u_id = ''B'', u_name = ''Bob'', u_color = ''#4ECDC4'', u_enabled = Some True\<rparr>"

definition storageWith :: "user list \<Rightarrow> localStorage" where
  "storageWith us = \<lparr>ls_item = Some (emptyNamespace\<lparr>ns_users := Some us\<rparr>), ls_full = False\<rparr>"

definition historyAABAAA :: localStorage where
  "historyAABAAA = addSpinEntries
     [(''A'', ''Alice'', 1), (''A'', ''Alice'', 2), (''B'', ''Bob'', 3),
      (''A'', ''Alice'', 4), (''A'', ''Alice'', 5), (''A'', ''Alice'', 6)] (storageWith [userA, userB])"

text \<open>Bob won the second of three races and was deleted afterwards.\<close>

definition historyABA_withoutB :: localStorage where
  "historyABA_withoutB = addSpinEntries
     [(''A'', ''Alice'', 1), (''B'', ''Bob'', 2), (''A'', ''Alice'', 3)] (storageWith [userA])"

text \<open>
  A race of one second over the 900 pixel track with every \<open>Math.random()\<close> equal to 0
  (six speed changes, all of factor 0.6), drawn at 20 frames per second: the first frame
  at elapsed time 0 with the nominal delta 16, then one frame every 50 ms up to 950 ms.
\<close>

definition zeroRng :: rng where
  "zeroRng = \<lparr>rng_seq = (\<lambda>k. 0), rng_pos = 0\<rparr>"

definition raceFrames :: "(real \<times> real) list" where
  "raceFrames = (0, 16) # map (\<lambda>k. (real k * 50, 50)) [1..<20]"

definition slowWinner :: horse where
  "slowWinner = fst (HorseState 0 ''A'' ''Alice'' ''#FF6B6B'' True 1000 900 zeroRng)"

definition slowLoser :: horse where
  "slowLoser = fst (HorseState 1 ''B'' ''Bob'' ''#4ECDC4'' False 1000 900 zeroRng)"

text \<open>The same non-winner in the second copy of the module.\<close>

definition slowLoser2 :: horse2 where
  "slowLoser2 = fst (HorseState2 1 ''B'' ''Bob'' ''#4ECDC4'' False 1000 900 zeroRng)"

text \<open>
  Alice and Bob race (Alice is drawn), no frame arrives after the first one and the safety
  timeout completes the race; then Bob is disabled in the storage without \<open>Race.render\<close>
  being run (as from a second tab), so that the cached list of the module is stale.
\<close>

definition racingExample :: race where
  "racingExample = race True 0 0 (initialRace (storageWith [userA, userB]) zeroRng)"

definition staleRace :: race where
  "staleRace =
     (let finished = raceTimeout True 8000 racingExample
      in finished\<lparr>storage := toggleUserEnabled ''B'' (storage finished)\<rparr>)"

text \<open>An entropy source that always returns \<open>r\<close>.\<close>

definition constRng :: "real \<Rightarrow> rng" where
  "constRng r = \<lparr>rng_seq = (\<lambda>k. r), rng_pos = 0\<rparr>"

text \<open>
  A second pair of races: \<open>Math.random()\<close> returns 0 for its first 16 calls and 1/2
  afterwards. The first race uses 15 values (the draw of the winner, then for each of
  the two horses the number of speed changes and six factors) and selects Alice.
\<close>

definition switchRng :: rng where
  "switchRng = \<lparr>rng_seq = (\<lambda>k. if k < 16 then 0 else 1 / 2), rng_pos = 0\<rparr>"

definition firstRace :: race where
  "firstRace = race True 0 0 (initialRace (storageWith [userA, userB]) switchRng)"

text \<open>
  A history in which the second entry names a member of \<open>Object.prototype\<close> and no
  participant.
\<close>

definition historyAcA :: localStorage where
  "historyAcA = addSpinEntries
     [(''A'', ''Alice'', 1), (''constructor'', ''Carol'', 2), (''A'', ''Alice'', 3)]
     (storageWith [userA])"

text \<open>The frames of the example race before and from the slowdown start of \<open>slowLoser2\<close>.\<close>

definition earlyFrames :: "(real \<times> real) list" where
  "earlyFrames = [(0, 16), (50, 50), (100, 50), (150, 50), (200, 50), (250, 50)]"

definition lateFrames :: "(real \<times> real) list" where
  "lateFrames = map (\<lambda>k. (real k * 50, 50)) [6..<20]"

section \<open>Auxiliary notions for the proofs\<close>

text \<open>The fields that \<open>update2\<close> never writes.\<close>

definition sameRace :: "horse2 \<Rightarrow> horse2 \<Rightarrow> bool" where
  "sameRace h h' \<longleftrightarrow>
     isWinner h' = isWinner h \<and> raceDistance h' = raceDistance h \<and>
     totalDuration h' = totalDuration h \<and> baseSpeed h' = baseSpeed h \<and>
     maxFinishPercent h' = maxFinishPercent h \<and>
     slowdownRate h' = slowdownRate h \<and> slowdownStart h' = slowdownStart h"

text \<open>
  An upper bound of the speed factor of a non-winner of the second copy in its slowdown
  phase, times the capped frame delta: one minus the square of the slowdown progress
  times the slowdown rate.
\<close>

definition slowdownBound :: "horse2 \<Rightarrow> real \<times> real \<Rightarrow> real" where
  "slowdownBound h = (\<lambda>(e, d).
     (1 - ((e - slowdownStart h) / (totalDuration h - slowdownStart h))\<^sup>2 * slowdownRate h)
       * min d 50)"

section \<open>Properties of the storage module\<close>

lemmas storage_defs = getNamespaceData_def setNamespaceData_def emptyNamespace_def getUsers_def
  getEnabledUsers_def getHistory_def getLastSelected_def setLastSelected_def setHistory_def
  addSpinEntry_def

lemma addSpinEntry_full [simp]: "ls_full (addSpinEntry userId userName now ls) = ls_full ls"
  by (simp add: storage_defs)

lemma getHistory_addSpinEntry:
  "\<not> ls_full ls \<Longrightarrow>
   getHistory (addSpinEntry userId userName now ls) = pushEntry userId userName now (getHistory ls)"
  by (simp add: storage_defs)

lemma getLastSelected_addSpinEntry:
  "\<not> ls_full ls \<Longrightarrow> getLastSelected (addSpinEntry userId userName now ls) = Some userId"
  by (simp add: storage_defs)

text \<open>The history after a run of appends, as a fold of \<open>pushEntry\<close>.\<close>

lemma addSpinEntries_full [simp]: "ls_full (addSpinEntries ins ls) = ls_full ls"
  by (induction ins ls rule: addSpinEntries.induct) simp_all

lemma getHistory_addSpinEntries:
  "\<not> ls_full ls \<Longrightarrow>
   getHistory (addSpinEntries ins ls) =
   foldl (\<lambda>h (userId, userName, now). pushEntry userId userName now h) (getHistory ls) ins"
  by (induction ins ls rule: addSpinEntries.induct) (simp_all add: getHistory_addSpinEntry)

lemma addSpinEntries_append:
  "addSpinEntries (xs @ ys) ls = addSpinEntries ys (addSpinEntries xs ls)"
  by (induction xs ls rule: addSpinEntries.induct) simp_all

lemma pushEntry_below:
  "length h < 500 \<Longrightarrow> pushEntry u n t h = h @ [newEntry u n t h]"
  by (simp add: pushEntry_def Let_def)

lemma pushEntry_full:
  "length h \<ge> 500 \<Longrightarrow> pushEntry u n t h = tl h @ [newEntry u n t h]"
  by (cases h) (simp_all add: pushEntry_def Let_def)

lemma length_pushEntry:
  "length (pushEntry u n t h) = (if length h < 500 then length h + 1 else length h)"
  by (cases h) (simp_all add: pushEntry_def Let_def)

lemma pushAll_below:
  "length h + length ins \<le> 500 \<Longrightarrow>
   length (pushAll h ins) = length h + length ins \<and>
   map e_spinNumber (pushAll h ins) = map e_spinNumber h @ [length h + 1 ..< length h + length ins + 1] \<and>
   map e_userId (pushAll h ins) = map e_userId h @ map fst ins"
proof (induction ins arbitrary: h)
  case Nil
  then show ?case by simp
next
  case (Cons x xs)
  obtain u n t where x: "x = (u, n, t)" by (cases x)
  let ?h = "pushEntry u n t h"
  have below: "length h < 500" using Cons.prems by simp
  have h': "?h = h @ [newEntry u n t h]" using below by (rule pushEntry_below)
  have len: "length ?h + length xs \<le> 500" using Cons.prems h' by simp
  have len': "length ?h = length h + 1" using h' by simp
  have up: "[length h + 1..<length h + length (x # xs) + 1] =
            (length h + 1) # [length ?h + 1..<length ?h + length xs + 1]"
    unfolding len' by (subst upt_rec) simp
  have "pushAll h (x # xs) = pushAll ?h xs" by (simp add: x)
  then show ?case using Cons.IH [OF len] up unfolding len' by (simp add: h' x newEntry_def)
qed

lemma pushEntry_at_500:
  "length h = 500 \<Longrightarrow>
   length (pushEntry u n t h) = 500 \<and>
   map e_spinNumber (pushEntry u n t h) = tl (map e_spinNumber h) @ [501] \<and>
   map e_userId (pushEntry u n t h) = tl (map e_userId h) @ [u]"
  by (cases h) (simp_all add: pushEntry_def Let_def newEntry_def map_tl)

lemma getHistory_emptyStorage: "getHistory emptyStorage = []" "\<not> ls_full emptyStorage"
  by (simp_all add: emptyStorage_def getHistory_def getNamespaceData_def emptyNamespace_def)

lemma pushAll_snoc:
  "pushAll h (ins @ [(u, n, t)]) = pushEntry u n t (pushAll h ins)"
  by simp

lemma pushAll_first_500:
  assumes "length ins = 500"
  shows "length (pushAll [] ins) = 500"
    and "map e_spinNumber (pushAll [] ins) = [1..<501]"
    and "map e_userId (pushAll [] ins) = map fst ins"
  using pushAll_below [of "[]" ins] assms by simp_all

lemma pushAll_501:
  assumes "length ins = 501"
  shows "length (pushAll [] ins) = 500 \<and>
         map e_spinNumber (pushAll [] ins) = [2..<502] \<and>
         map e_userId (pushAll [] ins) = map fst (tl ins)"
proof -
  obtain xs x where ins: "ins = xs @ [x]" and xs: "length xs = 500"
    using assms by (cases ins rule: rev_cases) auto
  obtain u n t where x: "x = (u, n, t)" by (cases x)
  have tl1: "tl [1..<501] = [2..<501]"
    by (subst upt_rec) (simp del: upt_rec_numeral flip: numeral_2_eq_2)
  have up: "[2..<502] = [2..<501] @ [501::nat]"
    using upt_Suc_append [of 2 501] by (simp del: upt_rec_numeral)
  have ne: "xs \<noteq> []" using xs by auto
  have "pushAll [] ins = pushEntry u n t (pushAll [] xs)"
    by (simp add: ins x)
  then show ?thesis
    using pushEntry_at_500 [OF pushAll_first_500(1) [OF xs], of u n t]
      pushAll_first_500 [OF xs] tl1 up ne
    by (simp add: ins x map_tl del: upt_rec_numeral)
qed

lemma history_after_501:
  assumes "\<not> ls_full ls" and "getHistory ls = []" and "length ins = 501"
  shows "length (getHistory (addSpinEntries ins ls)) = 500"
    and "map e_spinNumber (getHistory (addSpinEntries ins ls)) = [2..<502]"
    and "map e_userId (getHistory (addSpinEntries ins ls)) = map fst (tl ins)"
  using pushAll_501 [OF assms(3)] assms(1,2) by (simp_all add: getHistory_addSpinEntries)

lemma last_upt_2_502: "last [2..<502] = (501::nat)" "1 \<notin> set [2..<502]" "501 \<in> set [2..<502]"
  by (simp_all del: upt_rec_numeral)

text \<open>
  Claim C7. Starting from an empty history, with storage writes succeeding, 501 calls of
  \<open>addSpinEntry\<close> leave exactly 500 entries; they carry the sequence numbers 2 to 501 and
  the user ids of the second to the last input, so the oldest entry (number 1) is the
  one evicted and the newest entry is present with number 501.
\<close>

theorem rolling_history_bound:
  assumes "\<not> ls_full ls" and "getHistory ls = []" and "length ins = 501"
  shows "length (getHistory (addSpinEntries ins ls)) = 500 \<and>
         map e_spinNumber (getHistory (addSpinEntries ins ls)) = [2..<502] \<and>
         map e_userId (getHistory (addSpinEntries ins ls)) = map fst (tl ins) \<and>
         1 \<notin> set (map e_spinNumber (getHistory (addSpinEntries ins ls))) \<and>
         e_spinNumber (last (getHistory (addSpinEntries ins ls))) = 501 \<and>
         e_userId (last (getHistory (addSpinEntries ins ls))) = fst (last ins)"
proof -
  let ?h = "getHistory (addSpinEntries ins ls)"
  note p = history_after_501 [OF assms]
  have ne: "?h \<noteq> []" using p(1) by auto
  have ne': "tl ins \<noteq> []" using assms(3) by (cases ins) auto
  have "e_spinNumber (last ?h) = last (map e_spinNumber ?h)"
    using ne by (simp add: last_map)
  also have "\<dots> = 501" unfolding p(2) by (rule last_upt_2_502)
  finally have l1: "e_spinNumber (last ?h) = 501" .
  have "e_userId (last ?h) = last (map e_userId ?h)"
    using ne by (simp add: last_map)
  also have "\<dots> = fst (last (tl ins))" unfolding p(3) using ne' by (simp add: last_map)
  also have "\<dots> = fst (last ins)" using ne' by (simp add: last_tl)
  finally have l2: "e_userId (last ?h) = fst (last ins)" .
  have n1: "1 \<notin> set (map e_spinNumber ?h)" unfolding p(2) by (rule last_upt_2_502)
  show ?thesis using p l1 l2 n1 by blast
qed

lemma length_aliceWins: "length (aliceWins n) = n"
  by (simp add: aliceWins_def)

theorem rolling_history_bound_witness:
  "\<not> ls_full emptyStorage \<and> getHistory emptyStorage = [] \<and> length (aliceWins 501) = 501 \<and>
   length (getHistory (addSpinEntries (aliceWins 501) emptyStorage)) = 500 \<and>
   map e_spinNumber (getHistory (addSpinEntries (aliceWins 501) emptyStorage)) = [2..<502] \<and>
   e_spinNumber (last (getHistory (addSpinEntries (aliceWins 501) emptyStorage))) = 501"
  using rolling_history_bound [OF getHistory_emptyStorage(2) getHistory_emptyStorage(1)
      length_aliceWins [of 501]]
    getHistory_emptyStorage length_aliceWins [of 501] by blast

text \<open>
  Claim C8. The sequence number is \<open>history.length + 1\<close>, and the length stays at 500 once
  the window evicts. After 501 appends the history holds an entry numbered 501; the 502nd
  append numbers its entry 501 again, which is not strictly greater.
\<close>

theorem spinNumber_repeats_after_eviction:
  "addSpinEntries (aliceWins 502) emptyStorage =
     addSpinEntry ''A'' ''Alice'' 0 (addSpinEntries (aliceWins 501) emptyStorage) \<and>
   501 \<in> e_spinNumber ` set (getHistory (addSpinEntries (aliceWins 501) emptyStorage)) \<and>
   e_spinNumber (last (getHistory (addSpinEntries (aliceWins 502) emptyStorage))) = 501"
proof -
  let ?ls = "addSpinEntries (aliceWins 501) emptyStorage"
  have split: "aliceWins 502 = aliceWins 501 @ [(''A'', ''Alice'', 0)]"
  proof -
    have "replicate (Suc 501) (''A'', ''Alice'', 0::nat) =
          replicate 501 (''A'', ''Alice'', 0) @ [(''A'', ''Alice'', 0)]"
      by (simp only: replicate_Suc replicate_append_same)
    then show ?thesis by (simp add: aliceWins_def)
  qed
  have step: "addSpinEntries (aliceWins 502) emptyStorage = addSpinEntry ''A'' ''Alice'' 0 ?ls"
    by (simp add: split addSpinEntries_append)
  have nf: "\<not> ls_full ?ls" using getHistory_emptyStorage(2) by simp
  note p = history_after_501 [OF getHistory_emptyStorage(2) getHistory_emptyStorage(1)
      length_aliceWins [of 501]]
  have "e_spinNumber ` set (getHistory ?ls) = set (map e_spinNumber (getHistory ?ls))"
    by simp
  then have before: "501 \<in> e_spinNumber ` set (getHistory ?ls)"
    unfolding p(2) using last_upt_2_502(3) by simp
  have "getHistory (addSpinEntry ''A'' ''Alice'' 0 ?ls) =
        tl (getHistory ?ls) @ [newEntry ''A'' ''Alice'' 0 (getHistory ?ls)]"
    using nf p(1) by (simp add: getHistory_addSpinEntry pushEntry_full)
  then have "e_spinNumber (last (getHistory (addSpinEntry ''A'' ''Alice'' 0 ?ls))) = 501"
    using p(1) by (simp add: newEntry_def)
  then show ?thesis using step before by simp
qed


lemmas statistics_defs = calculateStatistics_def statistics_def scanHistory_def initStats_def
  countEntry_def flushLongest_def finalizeStreak_def setPercentage_def toFixed1_def tenths_def
  getStat_def updStat_def newStat_def objectPrototypeKeys_def

lemmas example_defs = storageWith_def userA_def userB_def storage_defs newEntry_def pushEntry_def

text \<open>
  Claim C5. With Alice (id A) and Bob (id B) present and the history A, A, B, A, A, A,
  \<open>calculateStatistics\<close> reports 5 wins, current streak 3, longest streak 3 and "83.3" for
  A, and 1 win, current streak 0, longest streak 1 and "16.7" for B; in tenths of a
  percent the two percentages add up to 1000.
\<close>

theorem statistics_AABAAA:
  "map e_userId (getHistory historyAABAAA) = [''A'', ''A'', ''B'', ''A'', ''A'', ''A''] \<and>
   so_own (calculateStatistics historyAABAAA) ''A'' =
     Some \<lparr>st_user = userA, st_winCount = 5, st_selections = 5, st_currentStreak = 3,
           st_longestStreak = 3, st_percentage = Some (PctString ''83.3'')\<rparr> \<and>
   so_own (calculateStatistics historyAABAAA) ''B'' =
     Some \<lparr>st_user = userB, st_winCount = 1, st_selections = 1, st_currentStreak = 0,
           st_longestStreak = 1, st_percentage = Some (PctString ''16.7'')\<rparr> \<and>
   tenths (real 5 / real 6 * 100) + tenths (real 1 / real 6 * 100) = 1000"
  by (simp add: historyAABAAA_def example_defs statistics_defs digits.simps Let_def)

text \<open>
  Claim C6 at a failing input. Bob (id B) won the second of three races and was deleted
  afterwards. The statistics then have no entry for B, and the entry of B in the history
  does not break the streak of Alice, which is reported as 2 (current and longest).
\<close>

theorem removed_participant_has_no_entry:
  "map e_userId (getHistory historyABA_withoutB) = [''A'', ''B'', ''A''] \<and>
   map u_id (getUsers historyABA_withoutB) = [''A''] \<and>
   so_own (calculateStatistics historyABA_withoutB) ''B'' = None \<and>
   so_proto (calculateStatistics historyABA_withoutB) = None \<and>
   so_own (calculateStatistics historyABA_withoutB) ''A'' =
     Some \<lparr>st_user = userA, st_winCount = 2, st_selections = 2, st_currentStreak = 2,
           st_longestStreak = 2, st_percentage = Some (PctString ''66.7'')\<rparr>"
  by (simp add: historyABA_withoutB_def example_defs statistics_defs digits.simps Let_def)

text \<open>
  An entry is skipped only when \<open>stats[entry.userId]\<close> is falsy: an entry whose id names
  a member of \<open>Object.prototype\<close> gets no stat entry either, but it does end the running
  streak.
\<close>

lemma inherited_key_breaks_streak:
  "so_own (calculateStatistics historyAcA) ''constructor'' = None \<and>
   so_own (calculateStatistics historyAcA) ''A'' =
     Some \<lparr>st_user = userA, st_winCount = 2, st_selections = 2, st_currentStreak = 1,
           st_longestStreak = 1, st_percentage = Some (PctString ''66.7'')\<rparr>"
  by (simp add: historyAcA_def example_defs statistics_defs digits.simps Let_def)

section \<open>Properties of the motion model\<close>

lemma applySpeedChanges_frame:
  "position (applySpeedChanges e h) = position h \<and>
   isWinner (applySpeedChanges e h) = isWinner h \<and>
   raceDistance (applySpeedChanges e h) = raceDistance h \<and>
   totalDuration (applySpeedChanges e h) = totalDuration h \<and>
   baseSpeed (applySpeedChanges e h) = baseSpeed h \<and>
   finalStretchStart (applySpeedChanges e h) = finalStretchStart h"
proof (induction e h rule: applySpeedChanges.induct)
  case (1 e h)
  show ?case
  proof (cases "currentSpeedIndex h < length (speedChanges h) \<and>
                sc_time (speedChanges h ! currentSpeedIndex h) \<le> e")
    case True
    then show ?thesis using "1.IH" by (subst (1 2 3 4 5 6) applySpeedChanges.simps) simp
  next
    case False
    then show ?thesis by (subst (1 2 3 4 5 6) applySpeedChanges.simps) auto
  qed
qed

lemma moveHorse_frame:
  "isWinner (moveHorse e d h) = isWinner h"
  "raceDistance (moveHorse e d h) = raceDistance h"
  "totalDuration (moveHorse e d h) = totalDuration h"
  by (simp_all add: moveHorse_def Let_def applySpeedChanges_frame)

lemma finalStretch_frame:
  "isWinner (finalStretch e d h) = isWinner h"
  "raceDistance (finalStretch e d h) = raceDistance h"
  "totalDuration (finalStretch e d h) = totalDuration h"
  by (simp_all add: finalStretch_def Let_def)

lemma ensureWinnerFinishes_frame:
  "isWinner (ensureWinnerFinishes e h) = isWinner h"
  "raceDistance (ensureWinnerFinishes e h) = raceDistance h"
  "totalDuration (ensureWinnerFinishes e h) = totalDuration h"
  by (simp_all add: ensureWinnerFinishes_def Let_def)

lemma update_frame:
  "isWinner (update e d h) = isWinner h"
  "raceDistance (update e d h) = raceDistance h"
  "totalDuration (update e d h) = totalDuration h"
  by (simp_all add: update_def ensureWinnerFinishes_frame finalStretch_frame moveHorse_frame)

lemma updates_frame:
  "isWinner (updates frames h) = isWinner h \<and>
   raceDistance (updates frames h) = raceDistance h \<and>
   totalDuration (updates frames h) = totalDuration h"
  by (induction frames h rule: updates.induct) (simp_all add: update_frame)

lemma HorseState_fields:
  "isWinner (fst (HorseState i uid nm col b T L g)) = b"
  "raceDistance (fst (HorseState i uid nm col b T L g)) = L"
  "totalDuration (fst (HorseState i uid nm col b T L g)) = T"
  "position (fst (HorseState i uid nm col b T L g)) = 50"
  by (simp_all add: HorseState_def)

lemma ensureWinnerFinishes_position:
  "isWinner h \<Longrightarrow> totalDuration h * 0.95 \<le> e \<Longrightarrow>
   position (ensureWinnerFinishes e h) = max (50 + raceDistance h) (position h)"
  by (simp add: ensureWinnerFinishes_def Let_def max_def)

text \<open>
  Claim C1, amended. For a winner built with duration \<open>T > 0\<close> and track length
  \<open>L > 0\<close>, after any earlier frames, an \<open>update\<close> with elapsed time of at least
  \<open>0.95 T\<close> leaves the position at the larger of the finish coordinate \<open>50 + L\<close> and
  the position this call had computed before its last clamp: at the finish or beyond it.
\<close>

theorem winner_at_or_beyond_finish:
  assumes "0 < T" and "0 < L" and "T * 0.95 \<le> elapsedTime"
  shows "position (update elapsedTime deltaTime
             (updates frames (fst (HorseState index userId userName color True T L g))))
         = max (50 + L)
             (position (finalStretch elapsedTime deltaTime (moveHorse elapsedTime deltaTime
                (updates frames (fst (HorseState index userId userName color True T L g)))))) \<and>
         50 + L \<le> position (update elapsedTime deltaTime
             (updates frames (fst (HorseState index userId userName color True T L g))))"
proof -
  let ?h = "updates frames (fst (HorseState index userId userName color True T L g))"
  let ?m = "finalStretch elapsedTime deltaTime (moveHorse elapsedTime deltaTime ?h)"
  have w: "isWinner ?m" and l: "raceDistance ?m = L" and t: "totalDuration ?m = T"
    by (simp_all add: finalStretch_frame moveHorse_frame updates_frame HorseState_fields)
  have "position (update elapsedTime deltaTime ?h) = max (50 + L) (position ?m)"
    unfolding update_def using ensureWinnerFinishes_position [of ?m elapsedTime] w assms(3)
    by (simp add: l t)
  then show ?thesis by simp
qed

theorem winner_at_or_beyond_finish_witness:
  "(0::real) < 1000 \<and> (0::real) < 900 \<and> (1000::real) * 0.95 \<le> 950 \<and>
   50 + 900 \<le> position (update 950 50 (updates (butlast raceFrames) slowWinner))"
  using winner_at_or_beyond_finish [of 1000 900 950 50 "butlast raceFrames" 0 "''A''" "''Alice''"
      "''#FF6B6B''" zeroRng]
  by (simp add: slowWinner_def)

text \<open>
  Claim C1 fails as stated: in the example race the winner passes the finish before
  95 percent of the duration, and the last update (elapsed time 950 of 1000) leaves it
  at 1130, not at the finish coordinate 950. The last clamp only raises a position.
\<close>

theorem winner_overshoots_counterexample:
  "fst (last raceFrames) \<ge> totalDuration slowWinner * 0.95 \<and>
   position (updates raceFrames slowWinner) = 1130 \<and>
   position (updates raceFrames slowWinner) \<noteq> 50 + raceDistance slowWinner"
  by code_simp

text \<open>In \<open>race.js\<close> a non-winner is held at 92 percent of the track.\<close>

lemma finalStretch_cap:
  "\<not> isWinner h \<Longrightarrow> position (finalStretch e d h) \<le> 50 + raceDistance h * 0.92"
  by (simp add: finalStretch_def Let_def)

lemma update_cap:
  assumes "\<not> isWinner h"
  shows "position (update e d h) \<le> 50 + raceDistance h * 0.92"
proof -
  let ?m = "moveHorse e d h"
  have nw: "\<not> isWinner ?m" using assms by (simp add: moveHorse_frame)
  have "position (finalStretch e d ?m) \<le> 50 + raceDistance ?m * 0.92"
    using nw by (rule finalStretch_cap)
  moreover have "ensureWinnerFinishes e (finalStretch e d ?m) = finalStretch e d ?m"
    using nw by (simp add: ensureWinnerFinishes_def finalStretch_frame)
  ultimately show ?thesis by (simp add: update_def moveHorse_frame)
qed

lemma updates_cap:
  "\<not> isWinner h \<Longrightarrow> position h \<le> 50 + raceDistance h * 0.92 \<Longrightarrow>
   position (updates frames h) \<le> 50 + raceDistance h * 0.92"
proof (induction frames h rule: updates.induct)
  case (1 h)
  then show ?case by simp
next
  case (2 e d frames h)
  have nw: "\<not> isWinner (update e d h)"
    using "2.prems"(1) by (simp add: update_frame)
  have cap: "position (update e d h) \<le> 50 + raceDistance (update e d h) * 0.92"
    using update_cap [OF "2.prems"(1), of e d] by (simp add: update_frame)
  show ?case using "2.IH" [OF nw cap] by (simp add: update_frame)
qed

subsection \<open>The second copy of the module\<close>

lemma applySpeedChanges2_frame:
  "position (applySpeedChanges2 e h) = position h \<and>
   isWinner (applySpeedChanges2 e h) = isWinner h \<and>
   raceDistance (applySpeedChanges2 e h) = raceDistance h \<and>
   totalDuration (applySpeedChanges2 e h) = totalDuration h \<and>
   baseSpeed (applySpeedChanges2 e h) = baseSpeed h \<and>
   finalStretchStart (applySpeedChanges2 e h) = finalStretchStart h \<and>
   maxFinishPercent (applySpeedChanges2 e h) = maxFinishPercent h \<and>
   slowdownRate (applySpeedChanges2 e h) = slowdownRate h \<and>
   slowdownStart (applySpeedChanges2 e h) = slowdownStart h"
proof (induction e h rule: applySpeedChanges2.induct)
  case (1 e h)
  show ?case
  proof (cases "currentSpeedIndex h < length (speedChanges h) \<and>
                sc_time (speedChanges h ! currentSpeedIndex h) \<le> e")
    case True
    then show ?thesis using "1.IH" by (subst (1 2 3 4 5 6 7 8 9) applySpeedChanges2.simps) simp
  next
    case False
    then show ?thesis by (subst (1 2 3 4 5 6 7 8 9) applySpeedChanges2.simps) auto
  qed
qed

lemma sameRace_trans: "sameRace a b \<Longrightarrow> sameRace b c \<Longrightarrow> sameRace a c"
  by (simp add: sameRace_def)

lemma sameRace_stages:
  "sameRace h (scheduledSpeed2 e h)"
  "sameRace h (winnerMove2 e c h)"
  "sameRace h (nonWinnerMove2 e c h)"
  "sameRace h (ensureWinnerFinishes2 e h)"
  by (simp_all add: sameRace_def scheduledSpeed2_def winnerMove2_def nonWinnerMove2_def
      ensureWinnerFinishes2_def Let_def applySpeedChanges2_frame)

lemma update2_sameRace: "sameRace h (update2 e d h)"
proof -
  let ?h = "scheduledSpeed2 e h"
  let ?m = "if isWinner ?h then winnerMove2 e (min d 50) ?h else nonWinnerMove2 e (min d 50) ?h"
  have 1: "sameRace h ?h" by (rule sameRace_stages)
  have 2: "sameRace ?h ?m" by (simp add: sameRace_stages)
  have 3: "sameRace ?m (ensureWinnerFinishes2 e ?m)" by (rule sameRace_stages)
  have "update2 e d h = ensureWinnerFinishes2 e ?m" by (simp add: update2_def Let_def)
  then show ?thesis using sameRace_trans [OF sameRace_trans [OF 1 2] 3] by simp
qed


lemma powr_three_halves_ge_square:
  fixes p :: real
  assumes "0 \<le> p" and "p \<le> 1"
  shows "p\<^sup>2 \<le> p powr 1.5"
proof (cases "p = 0")
  case True
  then show ?thesis by simp
next
  case False
  then have pos: "0 < p" using assms(1) by simp
  have "p powr 2 \<le> p powr 1.5"
    using assms by (intro powr_mono') simp_all
  then show ?thesis using pos by (simp add: powr_numeral)
qed

lemma update2_slowdown_step:
  assumes "\<not> isWinner h" and "0 \<le> baseSpeed h" and "0 \<le> d"
    and "0 \<le> slowdownRate h" and "slowdownRate h \<le> 7 / 10"
    and "slowdownStart h \<le> e" and "e \<le> totalDuration h"
    and "slowdownStart h < totalDuration h"
  shows "position (update2 e d h) \<le> position h + baseSpeed h * slowdownBound h (e, d)"
proof -
  define p where "p = (e - slowdownStart h) / (totalDuration h - slowdownStart h)"
  define r where "r = slowdownRate h"
  have p0: "0 \<le> p" and p1: "p \<le> 1"
    using assms(6,7,8) by (simp_all add: p_def)
  have sq: "p\<^sup>2 \<le> p powr 1.5" using p0 p1 by (rule powr_three_halves_ge_square)
  have c1: "p powr 1.5 \<le> 1" using p0 p1 by (intro powr_le1) simp_all
  have sq1: "p\<^sup>2 \<le> 1" using p0 p1 by (simp add: power_le_one)
  have r: "0 \<le> r" "r \<le> 7 / 10" using assms(4,5) by (simp_all add: r_def)
  define sm where "sm = 1 - p powr 1.5 * r"
  have sm0: "0 \<le> sm"
  proof -
    have "p powr 1.5 * r \<le> 1 * 1" using c1 r by (intro mult_mono) simp_all
    then show ?thesis by (simp add: sm_def)
  qed
  have smle: "sm \<le> 1 - p\<^sup>2 * r"
    using mult_right_mono [OF sq r(1)] by (simp add: sm_def)
  have low: "(3 / 10 :: real) \<le> 1 - p\<^sup>2 * r"
  proof -
    have "p\<^sup>2 * r \<le> 1 * (7 / 10)" using sq1 r by (intro mult_mono) simp_all
    then show ?thesis by simp
  qed
  define df where "df = distanceFactor2 (50 + raceDistance h * maxFinishPercent h - position h)"
  have df: "0 \<le> df" "df \<le> 1" by (auto simp: df_def distanceFactor2_def)
  have "sm * df \<le> sm * 1" using df sm0 by (intro mult_left_mono) simp_all
  then have bound: "max (3 / 10) (sm * df) \<le> 1 - p\<^sup>2 * r" using smle low by simp
  have cap: "0 \<le> min d 50" using assms(3) by simp
  let ?h = "scheduledSpeed2 e h"
  have nw: "\<not> isWinner ?h" and same: "position ?h = position h" "baseSpeed ?h = baseSpeed h"
    "slowdownStart ?h = slowdownStart h" "totalDuration ?h = totalDuration h"
    "slowdownRate ?h = slowdownRate h" "raceDistance ?h = raceDistance h"
    "maxFinishPercent ?h = maxFinishPercent h"
    using assms(1) by (simp_all add: scheduledSpeed2_def applySpeedChanges2_frame)
  have mv: "position (nonWinnerMove2 e (min d 50) ?h) =
            position h + baseSpeed h * max (3 / 10) (sm * df) * min d 50"
    using assms(6) by (simp add: nonWinnerMove2_def Let_def same sm_def df_def p_def r_def)
  have "update2 e d h = nonWinnerMove2 e (min d 50) ?h"
    using nw by (simp add: update2_def Let_def ensureWinnerFinishes2_def nonWinnerMove2_def)
  then have pos: "position (update2 e d h) =
             position h + baseSpeed h * max (3 / 10) (sm * df) * min d 50"
    using mv by simp
  have "baseSpeed h * max (3 / 10) (sm * df) * min d 50 \<le>
        baseSpeed h * (1 - p\<^sup>2 * r) * min d 50"
    using bound assms(2) cap by (intro mult_right_mono mult_left_mono) simp_all
  then show ?thesis unfolding pos by (simp add: slowdownBound_def p_def r_def mult.assoc)
qed

lemma updates2_append: "updates2 (xs @ ys) h = updates2 ys (updates2 xs h)"
  by (induction xs h rule: updates2.induct) simp_all

lemma updates2_slowdown_run:
  assumes "\<not> isWinner h" and "0 \<le> baseSpeed h"
    and "0 \<le> slowdownRate h" and "slowdownRate h \<le> 7 / 10"
    and "slowdownStart h < totalDuration h"
    and "\<forall>(e, d) \<in> set frames. slowdownStart h \<le> e \<and> e \<le> totalDuration h \<and> 0 \<le> d"
  shows "position (updates2 frames h) \<le>
         position h + baseSpeed h * sum_list (map (slowdownBound h) frames)"
  using assms
proof (induction frames arbitrary: h)
  case Nil
  then show ?case by simp
next
  case (Cons f frames)
  obtain e d where f: "f = (e, d)" by (cases f)
  let ?h = "update2 e d h"
  have s: "sameRace h ?h" by (rule update2_sameRace)
  have fr: "slowdownStart h \<le> e" "e \<le> totalDuration h" "0 \<le> d"
    using Cons.prems(6) by (simp_all add: f)
  have step: "position ?h \<le> position h + baseSpeed h * slowdownBound h (e, d)"
    using Cons.prems(1-5) fr by (intro update2_slowdown_step) simp_all
  have sb: "slowdownBound ?h = slowdownBound h"
    using s by (simp add: slowdownBound_def sameRace_def)
  have "position (updates2 frames ?h) \<le>
        position ?h + baseSpeed ?h * sum_list (map (slowdownBound ?h) frames)"
    using Cons.prems s by (intro Cons.IH) (simp_all add: sameRace_def)
  then have "position (updates2 frames ?h) \<le>
        position ?h + baseSpeed h * sum_list (map (slowdownBound h) frames)"
    using s by (simp add: sb sameRace_def)
  then show ?case using step by (simp add: f algebra_simps)
qed


lemma updates2_sameRace: "sameRace h (updates2 frames h)"
proof (induction frames h rule: updates2.induct)
  case (1 h)
  show ?case by (simp add: sameRace_def)
next
  case (2 e d frames h)
  show ?case using sameRace_trans [OF update2_sameRace "2.IH"] by simp
qed

lemma raceFrames_split: "raceFrames = earlyFrames @ lateFrames"
  by code_simp

lemma slowLoser2_fields:
  "\<not> isWinner slowLoser2" "baseSpeed slowLoser2 = 9 / 10" "slowdownRate slowLoser2 = 1 / 2"
  "slowdownStart slowLoser2 = 300" "totalDuration slowLoser2 = 1000"
  "raceDistance slowLoser2 = 900" "maxFinishPercent slowLoser2 = 85 / 100"
  by code_simp+

lemma slowLoser2_early: "position (updates2 earlyFrames slowLoser2) = 1177 / 5"
  by code_simp

lemma lateFrames_in_slowdown:
  "\<forall>(e, d) \<in> set lateFrames. 300 \<le> e \<and> e \<le> 1000 \<and> 0 \<le> d"
  by code_simp

lemma lateFrames_bound: "sum_list (map (slowdownBound slowLoser2) lateFrames) = 233450 / 392"
  by code_simp

lemma slowLoser2_final:
  "position (updates2 raceFrames slowLoser2) - 50 < 0.85 * raceDistance slowLoser2"
proof -
  let ?h = "updates2 earlyFrames slowLoser2"
  have s: "sameRace slowLoser2 ?h" by (rule updates2_sameRace)
  have f: "\<not> isWinner ?h" "baseSpeed ?h = 9 / 10" "slowdownRate ?h = 1 / 2"
    "slowdownStart ?h = 300" "totalDuration ?h = 1000"
    using s slowLoser2_fields by (simp_all add: sameRace_def)
  have sb: "slowdownBound ?h = slowdownBound slowLoser2"
    using s by (simp add: slowdownBound_def sameRace_def)
  have "position (updates2 lateFrames ?h) \<le>
        position ?h + baseSpeed ?h * sum_list (map (slowdownBound ?h) lateFrames)"
    using f lateFrames_in_slowdown by (intro updates2_slowdown_run) simp_all
  then have "position (updates2 raceFrames slowLoser2) \<le> 1177 / 5 + 9 / 10 * (233450 / 392)"
    by (simp add: raceFrames_split updates2_append sb f slowLoser2_early lateFrames_bound)
  then show ?thesis by (simp add: slowLoser2_fields)
qed

text \<open>
  Claim C3 at a failing input: the example race (one second, 900 pixels, every random
  value 0, 20 frames per second). In \<open>race.js\<close> the non-winner ends about 554 pixels from
  the start offset; in the second copy of the module, which draws the finish fraction
  0.85 for it, it ends less than 722 pixels from the start offset. Both are below
  \<open>0.85 L = 765\<close>.
\<close>

theorem nonwinner_below_band:
  "\<not> isWinner slowLoser \<and>
   position (updates raceFrames slowLoser) = 96719 / 160 \<and>
   position (updates raceFrames slowLoser) - 50 < 0.85 * raceDistance slowLoser \<and>
   \<not> isWinner slowLoser2 \<and> maxFinishPercent slowLoser2 = 0.85 \<and>
   position (updates2 raceFrames slowLoser2) - 50 < 0.85 * raceDistance slowLoser2"
proof -
  have "\<not> isWinner slowLoser \<and>
        position (updates raceFrames slowLoser) = 96719 / 160 \<and>
        position (updates raceFrames slowLoser) - 50 < 0.85 * raceDistance slowLoser"
    by code_simp
  then show ?thesis
    using slowLoser2_fields(1,7) slowLoser2_final by simp
qed

section \<open>Properties of the selection\<close>

lemma drawIndex_less:
  assumes "0 \<le> r" and "r < 1" and "0 < n"
  shows "drawIndex n r < n"
proof -
  have "r * real n < real n" using assms by simp
  then have a: "\<lfloor>r * real n\<rfloor> < int n" by (simp add: floor_less_iff)
  have b: "0 \<le> \<lfloor>r * real n\<rfloor>" using assms by simp
  have "nat \<lfloor>r * real n\<rfloor> < n" using a b by linarith
  then show ?thesis by (simp add: drawIndex_def)
qed

lemma drawIndex_eq_iff:
  assumes "0 \<le> r" and "0 < n"
  shows "drawIndex n r = i \<longleftrightarrow> real i / real n \<le> r \<and> r < (real i + 1) / real n"
proof -
  have nn: "0 \<le> \<lfloor>r * real n\<rfloor>" using assms by simp
  have "drawIndex n r = i \<longleftrightarrow> \<lfloor>r * real n\<rfloor> = int i"
    using nn by (auto simp: drawIndex_def)
  also have "\<dots> \<longleftrightarrow> real i \<le> r * real n \<and> r * real n < real i + 1"
    by (simp add: floor_eq_iff)
  also have "\<dots> \<longleftrightarrow> real i / real n \<le> r \<and> r < (real i + 1) / real n"
    using assms(2) by (simp add: pos_divide_le_eq pos_less_divide_eq)
  finally show ?thesis .
qed

lemma drawIndex_preimage:
  assumes "i < n"
  shows "{r. 0 \<le> r \<and> r < 1 \<and> drawIndex n r = i} = {real i / real n ..< (real i + 1) / real n}"
proof -
  have n: "0 < n" using assms by simp
  have up: "(real i + 1) / real n \<le> 1" using assms by (simp add: pos_divide_le_eq)
  have lo: "0 \<le> real i / real n" by simp
  show ?thesis
  proof (intro set_eqI iffI)
    fix r assume "r \<in> {r. 0 \<le> r \<and> r < 1 \<and> drawIndex n r = i}"
    then show "r \<in> {real i / real n ..< (real i + 1) / real n}"
      using drawIndex_eq_iff [of r n i] n by simp
  next
    fix r assume r: "r \<in> {real i / real n ..< (real i + 1) / real n}"
    then have bounds: "real i / real n \<le> r" "r < (real i + 1) / real n" by simp_all
    have "0 \<le> r" using lo bounds(1) by linarith
    moreover have "r < 1" using up bounds(2) by linarith
    ultimately have "0 \<le> r" and "r < 1" by blast+
    then show "r \<in> {r. 0 \<le> r \<and> r < 1 \<and> drawIndex n r = i}"
      using drawIndex_eq_iff [of r n i] n r by simp
  qed
qed

lemma draws_less: "unitInterval g \<Longrightarrow> 0 < n \<Longrightarrow> draws n g k < n"
  by (simp add: draws_def unitInterval_def drawIndex_less)

lemma findIndex_Some:
  "findIndex P xs = Some i \<Longrightarrow> i < length xs \<and> P (xs ! i) \<and> (\<forall>j<i. \<not> P (xs ! j))"
proof (induction xs arbitrary: i)
  case Nil
  then show ?case by simp
next
  case (Cons x xs)
  show ?case
  proof (cases "P x")
    case True
    then show ?thesis using Cons.prems by auto
  next
    case False
    then obtain i' where i': "findIndex P xs = Some i'" "i = Suc i'"
      using Cons.prems by auto
    have "\<forall>j<Suc i'. \<not> P ((x # xs) ! j)"
      using Cons.IH [OF i'(1)] False by (auto simp: less_Suc_eq_0_disj)
    then show ?thesis using Cons.IH [OF i'(1)] i'(2) by simp
  qed
qed

lemma findIndex_None: "findIndex P xs = None \<longleftrightarrow> (\<forall>x\<in>set xs. \<not> P x)"
  by (induction xs) auto

text \<open>The reroll loop, entered with the draw \<open>d a\<close> after \<open>a\<close> attempts.\<close>

lemma reroll_find:
  assumes "a \<le> 10" and "rng_pos g = p + a + 1"
  shows "fst (reroll n li (drawIndex n (rng_seq g (p + a))) a g) =
           (case find (\<lambda>k. drawIndex n (rng_seq g (p + k)) \<noteq> li) [a..<10] of
              Some k \<Rightarrow> drawIndex n (rng_seq g (p + k))
            | None \<Rightarrow> drawIndex n (rng_seq g (p + 10))) \<and>
         rng_seq (snd (reroll n li (drawIndex n (rng_seq g (p + a))) a g)) = rng_seq g \<and>
         rng_pos g \<le> rng_pos (snd (reroll n li (drawIndex n (rng_seq g (p + a))) a g)) \<and>
         rng_pos (snd (reroll n li (drawIndex n (rng_seq g (p + a))) a g)) \<le> p + 11"
  using assms
proof (induction "10 - a" arbitrary: a g)
  case 0
  then have a: "a = 10" by simp
  show ?case using "0.prems" by (subst (1 2 3 4) reroll.simps) (simp add: a)
next
  case (Suc m)
  then have a: "a < 10" by simp
  have up: "[a..<10] = a # [Suc a..<10]" using a by (simp add: upt_conv_Cons del: upt_rec_numeral)
  let ?d = "\<lambda>k. drawIndex n (rng_seq g (p + k))"
  show ?case
  proof (cases "?d a = li")
    case False
    then show ?thesis using Suc.prems
      by (subst (1 2 3 4) reroll.simps) (simp add: up del: upt_rec_numeral)
  next
    case True
    let ?g = "snd (randomIndex n g)"
    have g': "rng_pos ?g = p + Suc a + 1" "rng_seq ?g = rng_seq g"
      using Suc.prems by (simp_all add: randomIndex_def Math_random_def)
    have d': "fst (randomIndex n g) = drawIndex n (rng_seq ?g (p + Suc a))"
      using Suc.prems by (simp add: randomIndex_def Math_random_def)
    have m: "m = 10 - Suc a" using Suc.hyps(2) by simp
    have le: "Suc a \<le> 10" using a by simp
    note IH = Suc.hyps(1) [OF m le g'(1), unfolded g'(2)]
    have step: "reroll n li (?d a) a g = reroll n li (drawIndex n (rng_seq ?g (p + Suc a))) (Suc a) ?g"
      using True a by (subst reroll.simps) (simp add: d')
    show ?thesis unfolding step using IH True g' Suc.prems(2)
      by (simp add: up del: upt_rec_numeral)
  qed
qed

lemma getRandomUserIndex_refines:
  assumes "us \<noteq> []" and "distinct (map u_id us)" and "[] \<notin> set (map u_id us)"
    and "unitInterval g"
  shows "fst (getRandomUserIndex us lastId g) = selectWinner_spec us lastId (draws (length us) g)"
    and "rng_pos g < rng_pos (snd (getRandomUserIndex us lastId g))"
    and "rng_pos (snd (getRandomUserIndex us lastId g)) \<le> rng_pos g + 11"
proof -
  let ?n = "length us"
  let ?g1 = "snd (randomIndex ?n g)"
  have n: "0 < ?n" using assms(1) by simp
  have g1: "rng_pos ?g1 = rng_pos g + 0 + 1" "rng_seq ?g1 = rng_seq g"
    by (simp_all add: randomIndex_def Math_random_def)
  have d0: "fst (randomIndex ?n g) = drawIndex ?n (rng_seq ?g1 (rng_pos g + 0))"
    by (simp add: randomIndex_def Math_random_def)
  have d0': "fst (randomIndex ?n g) = draws ?n g 0"
    by (simp add: randomIndex_def Math_random_def draws_def)
  have plain: "fst (randomIndex ?n g) = draws ?n g 0 \<and> rng_pos g < rng_pos ?g1 \<and>
               rng_pos ?g1 \<le> rng_pos g + 11"
    using d0' g1 by simp
  have main: "fst (getRandomUserIndex us lastId g) = selectWinner_spec us lastId (draws ?n g) \<and>
        rng_pos g < rng_pos (snd (getRandomUserIndex us lastId g)) \<and>
        rng_pos (snd (getRandomUserIndex us lastId g)) \<le> rng_pos g + 11"
  proof (cases lastId)
    case None
    then show ?thesis using plain by (simp add: getRandomUserIndex_def selectWinner_spec_def)
  next
    case (Some l)
    show ?thesis
    proof (cases "findIndex (\<lambda>u. u_id u = l) us")
      case None
      then have "l \<notin> set (map u_id us)" by (auto simp: findIndex_None)
      then show ?thesis using plain \<open>lastId = Some l\<close> None
        by (simp add: getRandomUserIndex_def selectWinner_spec_def Let_def)
    next
      case (Some li)
      note li = findIndex_Some [OF Some]
      have lin: "l \<in> set (map u_id us)" using li by (metis length_map nth_map nth_mem)
      have lne: "l \<noteq> []" using lin assms(3) by blast
      have same: "u_id (us ! draws ?n g k) \<noteq> l \<longleftrightarrow> draws ?n g k \<noteq> li" for k
      proof -
        have k: "draws ?n g k < ?n" using assms(4) n by (rule draws_less)
        have "u_id (us ! draws ?n g k) = u_id (us ! li) \<longleftrightarrow> draws ?n g k = li"
          using assms(2) k li by (metis distinct_conv_nth length_map nth_map)
        then show ?thesis using li by simp
      qed
      have finds: "find (\<lambda>k. u_id (us ! draws ?n g k) \<noteq> l) [0..<10] =
                   find (\<lambda>k. drawIndex ?n (rng_seq ?g1 (rng_pos g + k)) \<noteq> li) [0..<10]"
        using same by (simp add: draws_def g1)
      note r = reroll_find [of 0 ?g1 "rng_pos g" ?n li, OF _ g1(1)]
      have code: "getRandomUserIndex us lastId g =
                  reroll ?n li (drawIndex ?n (rng_seq ?g1 (rng_pos g + 0))) 0 ?g1"
        using \<open>lastId = Some l\<close> Some lne d0 by (simp add: getRandomUserIndex_def Let_def)
      have spec: "selectWinner_spec us lastId (draws ?n g) =
          (case find (\<lambda>k. drawIndex ?n (rng_seq ?g1 (rng_pos g + k)) \<noteq> li) [0..<10] of
             Some k \<Rightarrow> drawIndex ?n (rng_seq ?g1 (rng_pos g + k))
           | None \<Rightarrow> drawIndex ?n (rng_seq ?g1 (rng_pos g + 10)))"
        using \<open>lastId = Some l\<close> lin finds
        by (simp add: selectWinner_spec_def draws_def g1 del: upt_rec_numeral set_map
            split: option.splits)
      show ?thesis unfolding code spec using r g1 by simp
    qed
  qed
  show "fst (getRandomUserIndex us lastId g) = selectWinner_spec us lastId (draws (length us) g)"
    and "rng_pos g < rng_pos (snd (getRandomUserIndex us lastId g))"
    and "rng_pos (snd (getRandomUserIndex us lastId g)) \<le> rng_pos g + 11"
    using main by simp_all
qed


lemma selectWinner_spec_const: "selectWinner_spec us lastId (\<lambda>k. i) = i"
  by (simp add: selectWinner_spec_def split: option.splits)

lemma selectable:
  assumes "us \<noteq> []" and "distinct (map u_id us)" and "[] \<notin> set (map u_id us)"
    and "i < length us"
  shows "unitInterval (constRng ((real i + 1 / 2) / real (length us))) \<and>
         fst (getRandomUserIndex us lastId (constRng ((real i + 1 / 2) / real (length us)))) = i"
proof -
  let ?n = "length us"
  let ?r = "(real i + 1 / 2) / real ?n"
  have n: "0 < ?n" using assms(1) by simp
  have r0: "0 \<le> ?r" by simp
  have "Suc i \<le> ?n" using assms(4) by simp
  then have "real (Suc i) \<le> real ?n" by (simp only: of_nat_le_iff)
  then have half: "real i + 1 / 2 < real ?n" by simp
  have r1: "?r < 1" using half n by (simp add: pos_divide_less_eq)
  have ui: "unitInterval (constRng ?r)"
    using r0 r1 by (simp add: unitInterval_def constRng_def)
  have "drawIndex ?n ?r = i"
    using drawIndex_eq_iff [OF r0 n, of i] n
    by (simp add: pos_divide_less_eq pos_le_divide_eq divide_simps)
  then have d: "draws ?n (constRng ?r) = (\<lambda>k. i)"
    by (intro ext) (simp add: draws_def constRng_def)
  show ?thesis
    using getRandomUserIndex_refines(1) [OF assms(1,2,3) ui, of lastId] ui
    by (simp add: d selectWinner_spec_const)
qed

text \<open>
  Claim C2. For a non-empty list of participants with distinct, non-empty ids and random
  values in \<open>[0, 1)\<close>, \<open>getRandomUserIndex\<close> returns what the specification's selection
  returns on the drawn indices: the first of the initial draw and up to 10 redraws whose
  participant differs from the last winner, else the tenth redraw. The index is in range,
  between 1 and 11 random values are consumed, every index is the result for some
  entropy, and each index is drawn from an interval of random values of length \<open>1/n\<close>.
\<close>

theorem getRandomUserIndex_anti_repeat:
  assumes "us \<noteq> []" and "distinct (map u_id us)" and "[] \<notin> set (map u_id us)"
    and "unitInterval g"
  shows "fst (getRandomUserIndex us lastId g) = selectWinner_spec us lastId (draws (length us) g) \<and>
         fst (getRandomUserIndex us lastId g) < length us \<and>
         rng_pos g < rng_pos (snd (getRandomUserIndex us lastId g)) \<and>
         rng_pos (snd (getRandomUserIndex us lastId g)) \<le> rng_pos g + 11 \<and>
         (\<forall>i<length us. \<exists>g'. unitInterval g' \<and> fst (getRandomUserIndex us lastId g') = i) \<and>
         (\<forall>i<length us. {r. 0 \<le> r \<and> r < 1 \<and> drawIndex (length us) r = i} =
                          {real i / real (length us) ..< (real i + 1) / real (length us)})"
proof -
  note r = getRandomUserIndex_refines [OF assms, of lastId]
  have n: "0 < length us" using assms(1) by simp
  have range: "fst (getRandomUserIndex us lastId g) < length us"
  proof (cases "selectWinner_spec us lastId (draws (length us) g) \<in> range (draws (length us) g)")
    case True
    then show ?thesis using r(1) draws_less [OF assms(4) n] by auto
  next
    case False
    then show ?thesis
      by (auto simp: selectWinner_spec_def split: option.splits if_splits)
  qed
  have sel: "\<forall>i<length us. \<exists>g'. unitInterval g' \<and> fst (getRandomUserIndex us lastId g') = i"
    using selectable [OF assms(1,2,3)] by blast
  have uni: "\<forall>i<length us. {r. 0 \<le> r \<and> r < 1 \<and> drawIndex (length us) r = i} =
                          {real i / real (length us) ..< (real i + 1) / real (length us)}"
    using drawIndex_preimage by blast
  show ?thesis using r range sel uni by blast
qed

theorem getRandomUserIndex_anti_repeat_witness:
  "[userA, userB] \<noteq> [] \<and> distinct (map u_id [userA, userB]) \<and>
   [] \<notin> set (map u_id [userA, userB]) \<and> unitInterval zeroRng \<and>
   fst (getRandomUserIndex [userA, userB] (Some ''A'') zeroRng) = 0 \<and>
   rng_pos (snd (getRandomUserIndex [userA, userB] (Some ''A'') zeroRng)) \<le> 11"
proof -
  have h: "[userA, userB] \<noteq> []" "distinct (map u_id [userA, userB])"
    "[] \<notin> set (map u_id [userA, userB])" "unitInterval zeroRng"
    by (simp_all add: userA_def userB_def unitInterval_def zeroRng_def)
  have d: "draws n zeroRng = (\<lambda>k. 0)" for n
    by (intro ext) (simp add: draws_def zeroRng_def drawIndex_def)
  have p: "rng_pos zeroRng = 0" by (simp add: zeroRng_def)
  show ?thesis
    using getRandomUserIndex_anti_repeat [OF h, of "Some ''A''"] h
    by (simp add: d p selectWinner_spec_const)
qed

section \<open>Properties of the race lifecycle\<close>

lemma length_makeHorses: "length (fst (makeHorses i sel T L us g)) = length us"
  by (induction us arbitrary: i g) (simp_all add: Let_def)

lemma completeRace_idle: "\<not> isRacing w \<Longrightarrow> completeRace onComplete now w = w"
  by (simp add: completeRace_def)

lemma completeRace_racing:
  assumes "isRacing w" and "selectedUser w = Some u"
  shows "completeRace True now w =
         w\<lparr>isRacing := False,
           animationFrameId := clearHandle (animationFrameId w),
           raceTimeoutId := clearHandle (raceTimeoutId w),
           raceButtonDisabled := False,
           storage := addSpinEntry (u_id u) (u_name u) now (storage w),
           completions := completions w @ [u]\<rparr>"
  using assms by (simp add: completeRace_def Let_def)

lemma animate_completes:
  assumes "isRacing w"
    and "duration w \<le> currentTime - (case startTime w of None \<Rightarrow> 0 | Some s \<Rightarrow> s)"
  shows "animate currentTime onComplete now w =
         completeRace onComplete now (w\<lparr>lastFrameTime := Some currentTime\<rparr>)"
  using assms by (simp add: animate_def Let_def)

lemma animate_idle: "\<not> isRacing w \<Longrightarrow> animate currentTime onComplete now w = w"
  by (simp add: animate_def)

lemma raceTimeout_idle: "\<not> isRacing w \<Longrightarrow> raceTimeout onComplete now w = w"
  by (simp add: raceTimeout_def)

lemma race_insufficient:
  assumes "length (getEnabledUsers (storage w)) < 2"
  shows "race onComplete perfNow now w =
         (if isRacing w \<or> length (users w) < 2 then w
          else (cleanup w)\<lparr>users := getEnabledUsers (storage w)\<rparr>)"
  using assms by (simp add: race_def cleanup_def Let_def)

lemma race_started:
  assumes "\<not> isRacing w" and "2 \<le> length (users w)"
    and "2 \<le> length (getEnabledUsers (storage w))"
    and "spinDuration (getSettings (storage w)) = Some d" and "0 < d"
  shows "isRacing (race onComplete perfNow now w)"
    and "users (race onComplete perfNow now w) = getEnabledUsers (storage w)"
    and "duration (race onComplete perfNow now w) = d * 1000"
    and "startTime (race onComplete perfNow now w) = Some perfNow"
    and "storage (race onComplete perfNow now w) = storage w"
    and "completions (race onComplete perfNow now w) = completions w"
    and "length (horses (race onComplete perfNow now w)) = length (getEnabledUsers (storage w))"
    and "selectedUser (race onComplete perfNow now w) =
          (let us = getEnabledUsers (storage w);
               i = fst (getRandomUserIndex us (getLastSelected (storage w)) (random w))
           in if i < length us then Some (us ! i) else None)"
  using assms
  by (simp_all add: race_def cleanup_def animate_def Let_def length_makeHorses)


lemma storageWith_AB:
  "getEnabledUsers (storageWith [userA, userB]) = [userA, userB]"
  "getLastSelected (storageWith [userA, userB]) = None"
  "spinDuration (getSettings (storageWith [userA, userB])) = Some 7"
  by (simp_all add: storageWith_def userA_def userB_def storage_defs getSettings_def)

lemma initialRace_fields:
  "isRacing (initialRace ls g) = False"
  "users (initialRace ls g) = getEnabledUsers ls"
  "storage (initialRace ls g) = ls"
  "random (initialRace ls g) = g"
  "completions (initialRace ls g) = []"
  by (simp_all add: initialRace_def)

lemma draw_zeroRng: "getRandomUserIndex us None zeroRng = (0, zeroRng\<lparr>rng_pos := 1\<rparr>)"
  by (simp add: getRandomUserIndex_def randomIndex_def drawIndex_def Math_random_def zeroRng_def)

lemma racingExample_facts:
  "isRacing racingExample"
  "selectedUser racingExample = Some userA"
  "duration racingExample = 7000"
  "startTime racingExample = Some 0"
  "users racingExample = [userA, userB]"
  "storage racingExample = storageWith [userA, userB]"
  "completions racingExample = []"
  "length (horses racingExample) = 2"
proof -
  let ?w = "initialRace (storageWith [userA, userB]) zeroRng"
  have a: "\<not> isRacing ?w" "2 \<le> length (users ?w)"
    "2 \<le> length (getEnabledUsers (storage ?w))"
    "spinDuration (getSettings (storage ?w)) = Some 7" "(0::real) < 7"
    by (simp_all add: initialRace_fields storageWith_AB)
  note r = race_started [OF a, of True 0 0, folded racingExample_def]
  show "isRacing racingExample" by (rule r(1))
  show "selectedUser racingExample = Some userA"
    using r(8) by (simp add: initialRace_fields storageWith_AB draw_zeroRng)
  show "duration racingExample = 7000" using r(3) by simp
  show "startTime racingExample = Some 0" by (rule r(4))
  show "users racingExample = [userA, userB]"
    using r(2) by (simp add: initialRace_fields storageWith_AB)
  show "storage racingExample = storageWith [userA, userB]"
    using r(5) by (simp add: initialRace_fields)
  show "completions racingExample = []" using r(6) by (simp add: initialRace_fields)
  show "length (horses racingExample) = 2"
    using r(7) by (simp add: initialRace_fields storageWith_AB)
qed

text \<open>
  Claim C4. For a running race with a selected user, finalizing through the frame loop
  (a frame at or after the duration) and through the safety timeout, in either order,
  calls \<open>onComplete\<close> exactly once, with the selected user: the second attempt changes
  nothing, \<open>completeRace\<close> leaves \<open>isRacing\<close> false and returns at once when it is false.
\<close>

theorem finalize_once:
  assumes "isRacing w" and "selectedUser w = Some u"
    and "duration w \<le> currentTime - (case startTime w of None \<Rightarrow> 0 | Some s \<Rightarrow> s)"
  shows "completions (raceTimeout True now2 (animate currentTime True now1 w)) = completions w @ [u] \<and>
         completions (animate currentTime True now2 (raceTimeout True now1 w)) = completions w @ [u] \<and>
         raceTimeout True now2 (animate currentTime True now1 w) = animate currentTime True now1 w \<and>
         animate currentTime True now2 (raceTimeout True now1 w) = raceTimeout True now1 w \<and>
         completeRace True now2 (completeRace True now1 w) = completeRace True now1 w \<and>
         \<not> isRacing (completeRace True now1 w) \<and>
         completeRace True now1 (w\<lparr>isRacing := False\<rparr>) = w\<lparr>isRacing := False\<rparr>"
proof -
  let ?f = "w\<lparr>lastFrameTime := Some currentTime\<rparr>"
  have f: "isRacing ?f" "selectedUser ?f = Some u" using assms by simp_all
  have nat: "animate currentTime True now1 w = completeRace True now1 ?f"
    using assms(1,3) by (rule animate_completes)
  have natDone: "\<not> isRacing (completeRace True now1 ?f)"
    and natLog: "completions (completeRace True now1 ?f) = completions w @ [u]"
    by (simp_all add: completeRace_racing [OF f])
  have tmo: "raceTimeout True now1 w = completeRace True now1 w"
    using assms(1) by (simp add: raceTimeout_def)
  have tmoDone: "\<not> isRacing (completeRace True now1 w)"
    and tmoLog: "completions (completeRace True now1 w) = completions w @ [u]"
    by (simp_all add: completeRace_racing [OF assms(1,2)])
  have 1: "raceTimeout True now2 (animate currentTime True now1 w) = animate currentTime True now1 w"
    unfolding nat using natDone by (rule raceTimeout_idle)
  have 2: "animate currentTime True now2 (raceTimeout True now1 w) = raceTimeout True now1 w"
    unfolding tmo using tmoDone by (rule animate_idle)
  have 3: "completeRace True now2 (completeRace True now1 w) = completeRace True now1 w"
    using tmoDone by (rule completeRace_idle)
  have 4: "completeRace True now1 (w\<lparr>isRacing := False\<rparr>) = w\<lparr>isRacing := False\<rparr>"
    by (simp add: completeRace_def)
  show ?thesis
    unfolding 1 2 3 4 using natLog tmoLog tmoDone unfolding nat tmo by simp
qed

theorem finalize_once_witness:
  "isRacing racingExample \<and> selectedUser racingExample = Some userA \<and>
   duration racingExample \<le> 7000 - (case startTime racingExample of None \<Rightarrow> 0 | Some s \<Rightarrow> s) \<and>
   completions (raceTimeout True 8000 (animate 7000 True 7000 racingExample)) = [userA] \<and>
   completions (animate 7000 True 8000 (raceTimeout True 7000 racingExample)) = [userA]"
proof -
  have d: "duration racingExample \<le>
           7000 - (case startTime racingExample of None \<Rightarrow> 0 | Some s \<Rightarrow> s)"
    by (simp add: racingExample_facts)
  note t = finalize_once [OF racingExample_facts(1,2) d, of 8000 7000]
  have c1: "completions (raceTimeout True 8000 (animate 7000 True 7000 racingExample)) =
            completions racingExample @ [userA]"
    using t by blast
  have c2: "completions (animate 7000 True 8000 (raceTimeout True 7000 racingExample)) =
            completions racingExample @ [userA]"
    using t by blast
  show ?thesis
    using c1 c2 d racingExample_facts(1,2) by (simp add: racingExample_facts(7))
qed


lemma staleRace_facts:
  "\<not> isRacing staleRace"
  "users staleRace = [userA, userB]"
  "length (horses staleRace) = 2"
  "getEnabledUsers (storage staleRace) = [userA]"
  "alerts staleRace = alerts racingExample"
  "uncaught staleRace = uncaught racingExample"
proof -
  have fin: "raceTimeout True 8000 racingExample = completeRace True 8000 racingExample"
    using racingExample_facts(1) by (simp add: raceTimeout_def)
  note c = completeRace_racing [OF racingExample_facts(1,2), of 8000]
  show "\<not> isRacing staleRace" "users staleRace = [userA, userB]"
    "length (horses staleRace) = 2" "alerts staleRace = alerts racingExample"
    "uncaught staleRace = uncaught racingExample"
    by (simp_all add: staleRace_def Let_def fin c racingExample_facts)
  have "storage staleRace =
        toggleUserEnabled ''B'' (addSpinEntry ''A'' ''Alice'' 8000 (storageWith [userA, userB]))"
    by (simp add: staleRace_def Let_def fin c racingExample_facts userA_def)
  then show "getEnabledUsers (storage staleRace) = [userA]"
    by (simp add: toggleUserEnabled_def storageWith_def userA_def userB_def storage_defs
        pushEntry_def newEntry_def Let_def)
qed

text \<open>
  Claim C9, amended. With fewer than 2 enabled participants in the storage \<open>Race.race\<close>
  returns without starting a race and without signalling anything: it is a no-op when a
  race is running or the cached list has fewer than 2 entries, and otherwise it runs
  \<open>cleanup\<close> and refreshes the cached list; storage and the completion log are unchanged.
  The button handler \<open>App.race\<close> only shows the alert.
\<close>

theorem race_insufficient_no_start:
  assumes "length (getEnabledUsers (storage w)) < 2"
  shows "race onComplete perfNow now w =
           (if isRacing w \<or> length (users w) < 2 then w
            else (cleanup w)\<lparr>users := getEnabledUsers (storage w)\<rparr>) \<and>
         isRacing (race onComplete perfNow now w) = isRacing w \<and>
         storage (race onComplete perfNow now w) = storage w \<and>
         completions (race onComplete perfNow now w) = completions w \<and>
         alerts (race onComplete perfNow now w) = alerts w \<and>
         uncaught (race onComplete perfNow now w) = uncaught w \<and>
         App_race perfNow now w = w\<lparr>alerts := alerts w @ [''Add at least 2 users before racing!'']\<rparr>"
proof -
  note r = race_insufficient [OF assms, of onComplete perfNow now]
  have "\<not> canRace w" using assms by (simp add: canRace_def)
  then have app: "App_race perfNow now w =
      w\<lparr>alerts := alerts w @ [''Add at least 2 users before racing!'']\<rparr>"
    by (simp add: App_race_def)
  show ?thesis unfolding r using app by (simp add: cleanup_def)
qed

theorem race_insufficient_no_start_witness:
  "length (getEnabledUsers (storage staleRace)) < 2 \<and>
   isRacing (race True 9000 9000 staleRace) = isRacing staleRace \<and>
   storage (race True 9000 9000 staleRace) = storage staleRace \<and>
   alerts (App_race 9000 9000 staleRace) =
     alerts staleRace @ [''Add at least 2 users before racing!'']"
proof -
  have h: "length (getEnabledUsers (storage staleRace)) < 2"
    by (simp add: staleRace_facts)
  note t = race_insufficient_no_start [OF h, of True 9000 9000]
  have "App_race 9000 9000 staleRace =
        staleRace\<lparr>alerts := alerts staleRace @ [''Add at least 2 users before racing!'']\<rparr>"
    using t by blast
  then have "alerts (App_race 9000 9000 staleRace) =
             alerts staleRace @ [''Add at least 2 users before racing!'']"
    by simp
  then show ?thesis using t h by blast
qed

text \<open>
  Claim C9 fails as stated: with a stale cached list \<open>Race.race\<close> changes the state of
  the module (the cached users, the horses of the previous race) although only one
  participant is enabled, and it reports no error.
\<close>

theorem race_insufficient_counterexample:
  "length (getEnabledUsers (storage staleRace)) < 2 \<and>
   race True 9000 9000 staleRace \<noteq> staleRace \<and>
   users staleRace = [userA, userB] \<and> users (race True 9000 9000 staleRace) = [userA] \<and>
   length (horses staleRace) = 2 \<and> horses (race True 9000 9000 staleRace) = [] \<and>
   alerts (race True 9000 9000 staleRace) = alerts staleRace \<and>
   uncaught (race True 9000 9000 staleRace) = uncaught staleRace"
proof -
  have h: "length (getEnabledUsers (storage staleRace)) < 2"
    by (simp add: staleRace_facts)
  have r: "race True 9000 9000 staleRace =
           (cleanup staleRace)\<lparr>users := getEnabledUsers (storage staleRace)\<rparr>"
    using race_insufficient [OF h, of True 9000 9000] by (simp add: staleRace_facts)
  have u: "users (race True 9000 9000 staleRace) = [userA]"
    unfolding r by (simp add: staleRace_facts)
  have hs: "horses (race True 9000 9000 staleRace) = []"
    unfolding r by (simp add: cleanup_def)
  have al: "alerts (race True 9000 9000 staleRace) = alerts staleRace"
    "uncaught (race True 9000 9000 staleRace) = uncaught staleRace"
    unfolding r by (simp_all add: cleanup_def)
  have "users (race True 9000 9000 staleRace) \<noteq> users staleRace"
    unfolding u by (simp add: staleRace_facts)
  then have ne: "race True 9000 9000 staleRace \<noteq> staleRace" by auto
  show ?thesis using h ne u hs al staleRace_facts(2,3) by simp
qed

section \<open>From the recorded winner to the next selection\<close>

lemma Math_random_seq [simp]: "rng_seq (snd (Math_random g)) = rng_seq g"
  by (simp add: Math_random_def)

lemma speedChangeLoop_seq [simp]:
  "rng_seq (snd (speedChangeLoop T n i changes g)) = rng_seq g"
proof (induction T n i changes g rule: speedChangeLoop.induct)
  case (1 T n i changes g)
  show ?case
  proof (cases "i < n")
    case True
    then show ?thesis using "1.IH" by (subst speedChangeLoop.simps) simp
  next
    case False
    then show ?thesis by (subst speedChangeLoop.simps) simp
  qed
qed

lemma HorseState_seq [simp]:
  "rng_seq (snd (HorseState i uid nm col b T L g)) = rng_seq g"
  by (simp add: HorseState_def generateSpeedChanges_def Let_def)

lemma makeHorses_seq [simp]: "rng_seq (snd (makeHorses i sel T L us g)) = rng_seq g"
  by (induction us arbitrary: i g) (simp_all add: Let_def)

lemma reroll_seq [simp]: "rng_seq (snd (reroll n li idx a g)) = rng_seq g"
proof (induction n li idx a g rule: reroll.induct)
  case (1 n li idx a g)
  show ?case
  proof (cases "idx = li \<and> a < 10")
    case True
    then show ?thesis using "1.IH" by (subst reroll.simps) (simp add: randomIndex_def)
  next
    case False
    then show ?thesis by (subst reroll.simps) auto
  qed
qed

lemma getRandomUserIndex_seq [simp]:
  "rng_seq (snd (getRandomUserIndex us lastId g)) = rng_seq g"
  by (simp add: getRandomUserIndex_def randomIndex_def Let_def split: option.splits)

lemma completeRace_fields:
  "random (completeRace cb now w) = random w"
  "users (completeRace cb now w) = users w"
  "selectedUser (completeRace cb now w) = selectedUser w"
  "\<not> isRacing (completeRace cb now w)"
  by (simp_all add: completeRace_def Let_def split: option.splits)

lemma completeRace_storage:
  "isRacing w \<Longrightarrow> selectedUser w = Some u \<Longrightarrow>
   storage (completeRace cb now w) = addSpinEntry (u_id u) (u_name u) now (storage w)"
  by (simp add: completeRace_def Let_def)

lemma animate_fields:
  "random (animate t cb now w) = random w"
  "selectedUser (animate t cb now w) = selectedUser w"
  by (simp_all add: animate_def Let_def completeRace_fields)

text \<open>The participant that a starting race selects.\<close>

lemma race_selects:
  assumes "\<not> isRacing w" and "2 \<le> length (users w)"
    and "2 \<le> length (getEnabledUsers (storage w))"
  shows "selectedUser (race cb perfNow now w) =
          (let us = getEnabledUsers (storage w);
               i = fst (getRandomUserIndex us (getLastSelected (storage w)) (random w))
           in if i < length us then Some (us ! i) else None)"
    and "rng_seq (random (race cb perfNow now w)) = rng_seq (random w)"
  using assms
  by (simp_all add: race_def cleanup_def Let_def animate_fields)

lemma getEnabledUsers_addSpinEntry [simp]:
  "getEnabledUsers (addSpinEntry userId userName now ls) = getEnabledUsers ls"
  by (simp add: storage_defs)


lemma selectWinner_spec_repeat:
  assumes "selectWinner_spec us (Some l) d < length us"
    and "u_id (us ! selectWinner_spec us (Some l) d) = l"
  shows "\<forall>k\<le>10. u_id (us ! d k) = l"
proof (cases "l \<in> set (map u_id us)")
  case True
  show ?thesis
  proof (cases "find (\<lambda>k. u_id (us ! d k) \<noteq> l) [0..<10]")
    case None
    then have early: "\<forall>k<10. u_id (us ! d k) = l"
      by (simp add: find_None_iff del: upt_rec_numeral)
    have "selectWinner_spec us (Some l) d = d 10"
      using True None by (simp add: selectWinner_spec_def del: upt_rec_numeral set_map)
    then have "u_id (us ! d 10) = l" using assms(2) by simp
    then show ?thesis using early by (auto simp: le_less)
  next
    case (Some k)
    then have "u_id (us ! d k) \<noteq> l" by (auto simp: find_Some_iff)
    moreover have "selectWinner_spec us (Some l) d = d k"
      using True Some by (simp add: selectWinner_spec_def del: upt_rec_numeral set_map)
    ultimately show ?thesis using assms(2) by simp
  qed
next
  case False
  then show ?thesis using assms by (metis length_map nth_map nth_mem)
qed

text \<open>
  Claim C10. When storage writes succeed, \<open>addSpinEntry(userId, userName)\<close> leaves
  \<open>userId\<close> as the stored last-selected id, pushes the entry and leaves the keys users,
  settings, lastView and firstVisit unchanged. \<open>completeRace\<close> records the selected user
  this way, and the next race (at least 2 enabled participants with distinct, non-empty
  ids, random values in \<open>[0, 1)\<close>) selects the participant that the anti-repeat selection
  yields for that id: it selects the same participant again only if the first draw and
  all 10 redraws hit that participant.
\<close>

theorem addSpinEntry_sets_lastSelected:
  assumes "\<not> ls_full (storage w)" and "isRacing w" and "selectedUser w = Some u"
    and "2 \<le> length (users w)" and "2 \<le> length (getEnabledUsers (storage w))"
    and "distinct (map u_id (getEnabledUsers (storage w)))"
    and "[] \<notin> set (map u_id (getEnabledUsers (storage w)))"
    and "unitInterval (random w)"
  shows "getLastSelected (addSpinEntry userId userName now (storage w)) = Some userId \<and>
         getHistory (addSpinEntry userId userName now (storage w)) =
           pushEntry userId userName now (getHistory (storage w)) \<and>
         ns_users (getNamespaceData (addSpinEntry userId userName now (storage w))) =
           ns_users (getNamespaceData (storage w)) \<and>
         ns_settings (getNamespaceData (addSpinEntry userId userName now (storage w))) =
           ns_settings (getNamespaceData (storage w)) \<and>
         ns_lastView (getNamespaceData (addSpinEntry userId userName now (storage w))) =
           ns_lastView (getNamespaceData (storage w)) \<and>
         ns_firstVisit (getNamespaceData (addSpinEntry userId userName now (storage w))) =
           ns_firstVisit (getNamespaceData (storage w)) \<and>
         storage (completeRace onComplete now w) =
           addSpinEntry (u_id u) (u_name u) now (storage w) \<and>
         getLastSelected (storage (completeRace onComplete now w)) = Some (u_id u) \<and>
         selectedUser (race onComplete' perfNow now' (completeRace onComplete now w)) =
           Some (getEnabledUsers (storage w) !
                 selectWinner_spec (getEnabledUsers (storage w)) (Some (u_id u))
                   (draws (length (getEnabledUsers (storage w))) (random w))) \<and>
         (u_id (getEnabledUsers (storage w) !
                selectWinner_spec (getEnabledUsers (storage w)) (Some (u_id u))
                  (draws (length (getEnabledUsers (storage w))) (random w))) = u_id u
          \<longrightarrow> (\<forall>k\<le>10. u_id (getEnabledUsers (storage w) !
                         draws (length (getEnabledUsers (storage w))) (random w) k) = u_id u))"
proof -
  let ?us = "getEnabledUsers (storage w)"
  let ?w = "completeRace onComplete now w"
  let ?i = "selectWinner_spec ?us (Some (u_id u)) (draws (length ?us) (random w))"
  have frame: "getLastSelected (addSpinEntry userId userName now (storage w)) = Some userId \<and>
         getHistory (addSpinEntry userId userName now (storage w)) =
           pushEntry userId userName now (getHistory (storage w)) \<and>
         ns_users (getNamespaceData (addSpinEntry userId userName now (storage w))) =
           ns_users (getNamespaceData (storage w)) \<and>
         ns_settings (getNamespaceData (addSpinEntry userId userName now (storage w))) =
           ns_settings (getNamespaceData (storage w)) \<and>
         ns_lastView (getNamespaceData (addSpinEntry userId userName now (storage w))) =
           ns_lastView (getNamespaceData (storage w)) \<and>
         ns_firstVisit (getNamespaceData (addSpinEntry userId userName now (storage w))) =
           ns_firstVisit (getNamespaceData (storage w))"
    using assms(1) by (simp add: storage_defs)
  have st: "storage ?w = addSpinEntry (u_id u) (u_name u) now (storage w)"
    using assms(2,3) by (rule completeRace_storage)
  have last: "getLastSelected (storage ?w) = Some (u_id u)"
    unfolding st using assms(1) by (rule getLastSelected_addSpinEntry)
  have en: "getEnabledUsers (storage ?w) = ?us" unfolding st by simp
  have ne: "?us \<noteq> []" using assms(5) by auto
  note ref = getRandomUserIndex_refines [OF ne assms(6,7,8), of "Some (u_id u)"]
  have range: "?i < length ?us"
  proof (cases "?i \<in> range (draws (length ?us) (random w))")
    case True
    then show ?thesis using draws_less [OF assms(8), of "length ?us"] ne by auto
  next
    case False
    then show ?thesis by (auto simp: selectWinner_spec_def split: option.splits if_splits)
  qed
  have start: "\<not> isRacing ?w" "2 \<le> length (users ?w)"
    "2 \<le> length (getEnabledUsers (storage ?w))"
    using assms(4,5) by (simp_all add: completeRace_fields en)
  have sel: "selectedUser (race onComplete' perfNow now' ?w) = Some (?us ! ?i)"
    using race_selects(1) [OF start, of onComplete' perfNow now'] ref(1) range
    by (simp add: en last completeRace_fields Let_def)
  have rep: "u_id (?us ! ?i) = u_id u \<longrightarrow>
             (\<forall>k\<le>10. u_id (?us ! draws (length ?us) (random w) k) = u_id u)"
    using selectWinner_spec_repeat [OF range] by blast
  show ?thesis using frame st last sel rep by blast
qed

lemma race_random:
  assumes "\<not> isRacing w" and "2 \<le> length (users w)"
    and "2 \<le> length (getEnabledUsers (storage w))"
  shows "rng_pos (random (race cb perfNow now w)) =
         (let us = getEnabledUsers (storage w);
              picked = getRandomUserIndex us (getLastSelected (storage w)) (random w);
              T = (case spinDuration (getSettings (storage w)) of None \<Rightarrow> 0 | Some d \<Rightarrow> d) * 1000
          in rng_pos (snd (makeHorses 0 (fst picked) T (r_raceDistance w) us (snd picked))))"
  using assms
  by (simp add: race_def cleanup_def Let_def animate_fields)

lemma firstRace_horses_random:
  "rng_pos (snd (makeHorses 0 0 7000 900 [userA, userB] (switchRng\<lparr>rng_pos := 1\<rparr>))) = 15"
  by code_simp

lemma draw_switchRng:
  "getRandomUserIndex us None switchRng = (0, switchRng\<lparr>rng_pos := 1\<rparr>)"
  by (simp add: getRandomUserIndex_def randomIndex_def drawIndex_def Math_random_def switchRng_def)

lemma firstRace_facts:
  "isRacing firstRace"
  "selectedUser firstRace = Some userA"
  "users firstRace = [userA, userB]"
  "storage firstRace = storageWith [userA, userB]"
  "rng_seq (random firstRace) = (\<lambda>k. if k < 16 then 0 else 1 / 2)"
  "rng_pos (random firstRace) = 15"
proof -
  let ?w = "initialRace (storageWith [userA, userB]) switchRng"
  have a: "\<not> isRacing ?w" "2 \<le> length (users ?w)"
    "2 \<le> length (getEnabledUsers (storage ?w))"
    by (simp_all add: initialRace_fields storageWith_AB)
  have b: "spinDuration (getSettings (storage ?w)) = Some 7" "(0::real) < 7"
    by (simp_all add: initialRace_fields storageWith_AB)
  note r = race_started [OF a b, of True 0 0, folded firstRace_def]
  show "isRacing firstRace" by (rule r(1))
  show "selectedUser firstRace = Some userA"
    using r(8) by (simp add: initialRace_fields storageWith_AB draw_switchRng)
  show "users firstRace = [userA, userB]"
    using r(2) by (simp add: initialRace_fields storageWith_AB)
  show "storage firstRace = storageWith [userA, userB]"
    using r(5) by (simp add: initialRace_fields)
  show "rng_seq (random firstRace) = (\<lambda>k. if k < 16 then 0 else 1 / 2)"
    using race_selects(2) [OF a, of True 0 0]
    by (simp add: firstRace_def initialRace_fields switchRng_def)
  show "rng_pos (random firstRace) = 15"
    using race_random [OF a, of True 0 0] firstRace_horses_random
    by (simp add: firstRace_def initialRace_fields storageWith_AB draw_switchRng
        initialRace_def [of _ switchRng])
qed

theorem addSpinEntry_sets_lastSelected_witness:
  "\<not> ls_full (storage firstRace) \<and> isRacing firstRace \<and>
   selectedUser firstRace = Some userA \<and> 2 \<le> length (users firstRace) \<and>
   2 \<le> length (getEnabledUsers (storage firstRace)) \<and>
   distinct (map u_id (getEnabledUsers (storage firstRace))) \<and>
   [] \<notin> set (map u_id (getEnabledUsers (storage firstRace))) \<and>
   unitInterval (random firstRace) \<and>
   draws 2 (random firstRace) 0 = 0 \<and>
   getLastSelected (storage (completeRace True 8000 firstRace)) = Some ''A'' \<and>
   selectedUser (race True 9000 9000 (completeRace True 8000 firstRace)) = Some userB"
proof -
  have h: "\<not> ls_full (storage firstRace)" "isRacing firstRace"
    "selectedUser firstRace = Some userA" "2 \<le> length (users firstRace)"
    "2 \<le> length (getEnabledUsers (storage firstRace))"
    "distinct (map u_id (getEnabledUsers (storage firstRace)))"
    "[] \<notin> set (map u_id (getEnabledUsers (storage firstRace)))"
    "unitInterval (random firstRace)"
    by (simp_all add: firstRace_facts storageWith_AB unitInterval_def)
       (simp_all add: storageWith_def userA_def userB_def)
  have d: "draws (length [userA, userB]) (random firstRace) = (\<lambda>k. if k = 0 then 0 else 1)"
    by (intro ext) (simp add: draws_def firstRace_facts drawIndex_def)
  have d0: "draws 2 (random firstRace) 0 = 0"
    by (simp add: draws_def firstRace_facts drawIndex_def)
  have fnd: "find (\<lambda>k. u_id ([userA, userB] ! (if k = 0 then 0 else 1)) \<noteq> ''A'') [0..<10] = Some 1"
    by code_simp
  have spec: "selectWinner_spec [userA, userB] (Some ''A'') (\<lambda>k. if k = 0 then 0 else 1) = 1"
    using fnd by (simp add: selectWinner_spec_def userA_def userB_def)
  note t = addSpinEntry_sets_lastSelected [OF h, of _ _ 8000 True True 9000 9000]
  have l: "getLastSelected (storage (completeRace True 8000 firstRace)) = Some (u_id userA)"
    using t by blast
  have s: "selectedUser (race True 9000 9000 (completeRace True 8000 firstRace)) =
        Some (getEnabledUsers (storage firstRace) !
              selectWinner_spec (getEnabledUsers (storage firstRace)) (Some (u_id userA))
                (draws (length (getEnabledUsers (storage firstRace))) (random firstRace)))"
    using t by blast
  have ua: "u_id userA = ''A''" by (simp add: userA_def)
  have "selectedUser (race True 9000 9000 (completeRace True 8000 firstRace)) = Some userB"
    using s d by (simp add: firstRace_facts storageWith_AB ua spec)
  moreover have "getLastSelected (storage (completeRace True 8000 firstRace)) = Some ''A''"
    using l by (simp add: userA_def)
  ultimately show ?thesis using h d0 by blast
qed

end
